(* ===== verification/Prelude.thy ===== *)
theory Prelude
  imports Main "HOL-Library.Word" "HOL-Library.Sublist"
begin

text \<open>
  The vocabulary every component shares: C++ byte strings as lists of characters, the
  search functions of \<^verbatim>\<open>std::string\<close> that the sources call, the character classes of
  \<^verbatim>\<open><cctype>\<close> in the C locale, trimming, decimal printing, and the theorem collections
  that the component proofs use.

  A \<^verbatim>\<open>char\<close> is one byte. A position is a \<open>nat\<close>; \<^verbatim>\<open>std::string::npos\<close> is \<open>None\<close>.
\<close>

section \<open>Theorem collections\<close>

named_theorems search_bounds \<open>where a search result lies\<close>
named_theorems string_laws \<open>equations of the string functions\<close>

section \<open>Searching\<close>

text \<open>First index at which a predicate holds, first index at which a needle occurs.\<close>

fun find_idx :: "(char \<Rightarrow> bool) \<Rightarrow> string \<Rightarrow> nat option" where
  "find_idx P [] = None"
| "find_idx P (c # cs) = (if P c then Some 0 else map_option Suc (find_idx P cs))"

fun starts_with :: "string \<Rightarrow> string \<Rightarrow> bool" where
  "starts_with s [] = True"
| "starts_with [] (p # ps) = False"
| "starts_with (c # cs) (p # ps) = (c = p \<and> starts_with cs ps)"

fun find_sub :: "string \<Rightarrow> string \<Rightarrow> nat option" where
  "find_sub needle [] = (if needle = [] then Some 0 else None)"
| "find_sub needle (c # cs) =
     (if starts_with (c # cs) needle then Some 0 else map_option Suc (find_sub needle cs))"

text \<open>
  \<^verbatim>\<open>s.find(needle, pos)\<close>, \<^verbatim>\<open>s.find(c, pos)\<close>, \<^verbatim>\<open>s.find_first_of(set, pos)\<close> and
  \<^verbatim>\<open>s.find_first_not_of(set, pos)\<close>: absolute positions, nothing found past the end.
\<close>

definition find_str :: "string \<Rightarrow> string \<Rightarrow> nat \<Rightarrow> nat option" where
  "find_str s needle pos =
     (if pos \<le> length s then map_option ((+) pos) (find_sub needle (drop pos s)) else None)"

definition find_pos :: "(char \<Rightarrow> bool) \<Rightarrow> string \<Rightarrow> nat \<Rightarrow> nat option" where
  "find_pos P s pos = map_option ((+) pos) (find_idx P (drop pos s))"

definition find_char :: "string \<Rightarrow> char \<Rightarrow> nat \<Rightarrow> nat option" where
  "find_char s c pos = find_pos (\<lambda>x. x = c) s pos"

definition find_first_of :: "string \<Rightarrow> string \<Rightarrow> nat \<Rightarrow> nat option" where
  "find_first_of s cs pos = find_pos (\<lambda>x. x \<in> set cs) s pos"

definition find_first_not_of :: "string \<Rightarrow> string \<Rightarrow> nat \<Rightarrow> nat option" where
  "find_first_not_of s cs pos = find_pos (\<lambda>x. x \<notin> set cs) s pos"

text \<open>\<^verbatim>\<open>s.find(needle) != npos\<close>, and \<^verbatim>\<open>s.rfind(c)\<close>, the last occurrence.\<close>

definition contains :: "string \<Rightarrow> string \<Rightarrow> bool" where
  "contains s needle \<longleftrightarrow> find_str s needle 0 \<noteq> None"

definition rfind_char :: "string \<Rightarrow> char \<Rightarrow> nat option" where
  "rfind_char s c = map_option (\<lambda>i. length s - Suc i) (find_idx (\<lambda>x. x = c) (rev s))"

text \<open>\<^verbatim>\<open>s.substr(pos, n)\<close> for a position inside the string.\<close>

definition substr :: "nat \<Rightarrow> nat \<Rightarrow> string \<Rightarrow> string" where
  "substr pos n s = take n (drop pos s)"

lemma starts_with_iff: "starts_with s p \<longleftrightarrow> (\<exists>t. s = p @ t)"
  by (induction s p rule: starts_with.induct) auto

lemma starts_with_append [simp]: "starts_with (p @ t) p"
  by (auto simp: starts_with_iff)

lemma starts_with_length [search_bounds]: "starts_with s p \<Longrightarrow> length p \<le> length s"
  by (auto simp: starts_with_iff)

lemma find_idx_Some:
  "find_idx P s = Some i \<longleftrightarrow> i < length s \<and> P (s ! i) \<and> (\<forall>j < i. \<not> P (s ! j))"
proof (induction s arbitrary: i)
  case Nil
  then show ?case by simp
next
  case (Cons c cs)
  then show ?case
    by (cases i) (auto simp: less_Suc_eq_0_disj)
qed

lemma find_idx_None: "find_idx P s = None \<longleftrightarrow> (\<forall>c \<in> set s. \<not> P c)"
  by (induction s) auto

lemma find_idx_append:
  "find_idx P (xs @ ys) =
     (case find_idx P xs of Some i \<Rightarrow> Some i | None \<Rightarrow> map_option ((+) (length xs)) (find_idx P ys))"
  by (induction xs) (auto split: option.splits simp: option.map_comp comp_def option.map_ident
      intro!: option.map_cong0 intro: trans [OF option.map_ident [symmetric]])

lemma find_sub_Some:
  "find_sub n s = Some i \<Longrightarrow> i + length n \<le> length s \<and> starts_with (drop i s) n"
proof (induction n s arbitrary: i rule: find_sub.induct)
  case (1 n)
  then show ?case by (simp split: if_splits)
next
  case (2 n c cs)
  show ?case
  proof (cases "starts_with (c # cs) n")
    case True
    with "2.prems" starts_with_length [OF True] show ?thesis by simp
  next
    case False
    with "2.prems" obtain k where "find_sub n cs = Some k" "i = Suc k"
      by auto
    with "2.IH" [OF False] show ?thesis by auto
  qed
qed

lemma find_sub_None: "find_sub n s = None \<longleftrightarrow> (\<nexists>a b. s = a @ n @ b)"
proof (induction n s rule: find_sub.induct)
  case (1 n)
  then show ?case by auto
next
  case (2 n c cs)
  show ?case
  proof (cases "starts_with (c # cs) n")
    case True
    then obtain t where "c # cs = [] @ n @ t" by (auto simp: starts_with_iff)
    with True show ?thesis by (metis find_sub.simps(2) option.distinct(1))
  next
    case False
    have "(\<exists>a b. c # cs = a @ n @ b) \<longleftrightarrow> (\<exists>a b. cs = a @ n @ b)"
    proof
      assume "\<exists>a b. c # cs = a @ n @ b"
      then obtain a b where ab: "c # cs = a @ n @ b" by blast
      with False have "a \<noteq> []" by (auto simp: starts_with_iff)
      with ab show "\<exists>a b. cs = a @ n @ b" by (cases a) auto
    next
      assume "\<exists>a b. cs = a @ n @ b"
      then show "\<exists>a b. c # cs = a @ n @ b" by (metis append_Cons)
    qed
    then show ?thesis using 2 False by simp
  qed
qed

lemma contains_iff: "contains s n \<longleftrightarrow> (\<exists>a b. s = a @ n @ b)"
proof -
  have "contains s n \<longleftrightarrow> find_sub n s \<noteq> None"
    by (simp add: contains_def find_str_def)
  then show ?thesis unfolding find_sub_None by simp
qed

lemma find_str_bounds [search_bounds]:
  "find_str s n pos = Some i \<Longrightarrow> pos \<le> i \<and> i + length n \<le> length s"
  by (auto simp: find_str_def split: if_splits dest: find_sub_Some)

lemma find_str_at: "find_str s n pos = Some i \<Longrightarrow> starts_with (drop i s) n"
  by (auto simp: find_str_def split: if_splits dest!: find_sub_Some simp: drop_drop add.commute)

lemma find_pos_bounds [search_bounds]:
  "find_pos P s pos = Some i \<Longrightarrow> pos \<le> i \<and> i < length s"
  by (auto simp: find_pos_def find_idx_Some)

lemma find_pos_at: "find_pos P s pos = Some i \<Longrightarrow> P (s ! i)"
  by (auto simp: find_pos_def find_idx_Some)

lemma find_char_bounds [search_bounds]:
  "find_char s c pos = Some i \<Longrightarrow> pos \<le> i \<and> i < length s"
  unfolding find_char_def by (rule find_pos_bounds)

lemma find_first_of_bounds [search_bounds]:
  "find_first_of s cs pos = Some i \<Longrightarrow> pos \<le> i \<and> i < length s"
  unfolding find_first_of_def by (rule find_pos_bounds)

lemma find_first_not_of_bounds [search_bounds]:
  "find_first_not_of s cs pos = Some i \<Longrightarrow> pos \<le> i \<and> i < length s"
  unfolding find_first_not_of_def by (rule find_pos_bounds)

section \<open>Character classes of the C locale\<close>

abbreviation LF :: char where "LF \<equiv> CHR 0x0A"
abbreviation CR :: char where "CR \<equiv> CHR 0x0D"
abbreviation TAB :: char where "TAB \<equiv> CHR 0x09"
abbreviation DQUOTE :: char where "DQUOTE \<equiv> CHR 0x22"
abbreviation BSLASH :: char where "BSLASH \<equiv> CHR 0x5C"
abbreviation NUL :: char where "NUL \<equiv> CHR 0x00"

abbreviation byte :: "char \<Rightarrow> nat" where "byte \<equiv> of_char"

definition is_space :: "char \<Rightarrow> bool" where
  "is_space c \<longleftrightarrow> c = CHR '' '' \<or> c = TAB \<or> c = LF \<or> c = CHR 0x0B \<or> c = CHR 0x0C \<or> c = CR"

definition is_digit :: "char \<Rightarrow> bool" where
  "is_digit c \<longleftrightarrow> 48 \<le> byte c \<and> byte c \<le> 57"

definition is_alpha :: "char \<Rightarrow> bool" where
  "is_alpha c \<longleftrightarrow> (65 \<le> byte c \<and> byte c \<le> 90) \<or> (97 \<le> byte c \<and> byte c \<le> 122)"

definition is_alnum :: "char \<Rightarrow> bool" where
  "is_alnum c \<longleftrightarrow> is_digit c \<or> is_alpha c"

definition to_lower :: "char \<Rightarrow> char" where
  "to_lower c = (if 65 \<le> byte c \<and> byte c \<le> 90 then char_of (byte c + 32) else c)"

lemma byte_less_256 [simp]: "byte c < 256"
  using of_char_mod_256 [of c, where ?'a = nat] by (metis mod_less_divisor zero_less_numeral)

section \<open>Trimming\<close>

text \<open>
  \<^verbatim>\<open>trim\<close> moves a begin index over leading white space and an end index back over
  trailing white space, then takes the part between them.
\<close>

definition trim :: "string \<Rightarrow> string" where
  "trim s = rev (dropWhile is_space (rev (dropWhile is_space s)))"

lemma trim_Nil [simp]: "trim [] = []"
  by (simp add: trim_def)

lemma trim_infix: "\<exists>a b. s = a @ trim s @ b"
proof -
  obtain a where a: "s = a @ dropWhile is_space s"
    by (metis takeWhile_dropWhile_id)
  obtain b where "rev (dropWhile is_space s) = b @ dropWhile is_space (rev (dropWhile is_space s))"
    by (metis takeWhile_dropWhile_id)
  then have "dropWhile is_space s = trim s @ rev b"
    unfolding trim_def by (metis rev_append rev_rev_ident)
  with a show ?thesis by metis
qed

lemma set_trim: "set (trim s) \<subseteq> set s"
  using trim_infix [of s] by (metis Un_upper1 Un_upper2 dual_order.trans set_append)

lemma length_trim: "length (trim s) \<le> length s"
  using trim_infix [of s] by (metis le_add1 le_add2 le_trans length_append)

lemma dropWhile_trim [simp]: "dropWhile P (dropWhile P xs) = dropWhile P xs"
  by (induction xs) auto

lemma hd_dropWhile_ne: "dropWhile P xs \<noteq> [] \<Longrightarrow> \<not> P (hd (dropWhile P xs))"
  by (induction xs) auto

lemma trim_hd: "trim s \<noteq> [] \<Longrightarrow> \<not> is_space (hd (trim s))"
proof -
  assume ne: "trim s \<noteq> []"
  let ?d = "dropWhile is_space s"
  have d: "?d \<noteq> []"
  proof
    assume "?d = []"
    then have "trim s = []" unfolding trim_def by (simp only: rev.simps dropWhile.simps)
    with ne show False ..
  qed
  then have "\<not> is_space (hd ?d)" by (rule hd_dropWhile_ne)
  moreover have "hd (trim s) = hd ?d"
    using ne unfolding trim_def
    by (metis hd_append2 rev_append rev_rev_ident takeWhile_dropWhile_id)
  ultimately show ?thesis by simp
qed

lemma trim_last: "trim s \<noteq> [] \<Longrightarrow> \<not> is_space (last (trim s))"
  unfolding trim_def by (metis dropWhile_eq_Nil_conv hd_dropWhile last_rev rev.simps(1))

lemma trim_id: "s = [] \<or> (\<not> is_space (hd s) \<and> \<not> is_space (last s)) \<Longrightarrow> trim s = s"
proof (cases "s = []")
  case False
  assume "s = [] \<or> (\<not> is_space (hd s) \<and> \<not> is_space (last s))"
  with False have h: "\<not> is_space (hd s)" and l: "\<not> is_space (hd (rev s))"
    by (auto simp: hd_rev)
  have "dropWhile is_space s = s"
    using h False by (cases s) auto
  moreover have "dropWhile is_space (rev s) = rev s"
    using l False by (cases "rev s") auto
  ultimately show ?thesis by (simp add: trim_def)
qed simp

lemma trim_Cons: "\<not> is_space c \<Longrightarrow> \<exists>t. trim (c # s) = c # t"
proof -
  assume "\<not> is_space c"
  then have "dropWhile is_space (xs @ [c]) = dropWhile is_space xs @ [c]" for xs
    by (induction xs) auto
  with \<open>\<not> is_space c\<close> show ?thesis by (simp add: trim_def)
qed

lemma trim_trim [simp]: "trim (trim s) = trim s"
  by (rule trim_id) (use trim_hd trim_last in blast)

section \<open>Decimal printing\<close>

text \<open>\<^verbatim>\<open>std::to_string\<close> of an unsigned and of a signed integer.\<close>

definition digit_char :: "nat \<Rightarrow> char" where
  "digit_char d = char_of (48 + d)"

fun nat_to_string :: "nat \<Rightarrow> string" where
  "nat_to_string n =
     (if n < 10 then [digit_char n] else nat_to_string (n div 10) @ [digit_char (n mod 10)])"

declare nat_to_string.simps [simp del]

definition int_to_string :: "int \<Rightarrow> string" where
  "int_to_string i = (if i < 0 then CHR ''-'' # nat_to_string (nat (- i)) else nat_to_string (nat i))"

lemma nat_to_string_neq_Nil [simp]: "nat_to_string n \<noteq> []"
  by (subst nat_to_string.simps) simp

lemma is_digit_digit_char: "d < 10 \<Longrightarrow> is_digit (digit_char d)"
  by (simp add: is_digit_def digit_char_def)

lemma nat_to_string_digits: "\<forall>c \<in> set (nat_to_string n). is_digit c"
proof (induction n rule: nat_to_string.induct)
  case (1 n)
  then show ?case
    by (subst nat_to_string.simps) (auto simp: is_digit_digit_char)
qed

lemma int_to_string_neq_Nil [simp]: "int_to_string i \<noteq> []"
  by (simp add: int_to_string_def)

text \<open>A string handed over as a C string ends at the first NUL.\<close>

definition c_str :: "string \<Rightarrow> string" where
  "c_str s = takeWhile (\<lambda>c. c \<noteq> NUL) s"

section \<open>Sequencing operations that may fail\<close>

text \<open>
  Many C++ functions return \<^verbatim>\<open>bool\<close> and change state through references:
  \<^verbatim>\<open>if (!f()) return false; g();\<close> is \<open>and_then (f s) g\<close>.
\<close>

definition and_then :: "bool \<times> 's \<Rightarrow> ('s \<Rightarrow> bool \<times> 's) \<Rightarrow> bool \<times> 's" where
  "and_then r f = (case r of (ok, s) \<Rightarrow> if ok then f s else (False, s))"

lemma and_then_simps [simp]:
  "and_then (True, s) f = f s" "and_then (False, s) f = (False, s)"
  by (simp_all add: and_then_def)

lemma fst_and_then: "fst (and_then r f) \<longleftrightarrow> fst r \<and> fst (f (snd r))"
  by (cases r) (simp add: and_then_def)

end
