(* ===== verification/Json_Escape.thy ===== *)
theory Json_Escape
  imports Prelude
begin

text \<open>
  Text that leaves the filter in log lines: \<^verbatim>\<open>jsonEscape\<close> and
  \<^verbatim>\<open>classicLogSanitize\<close> of \<^verbatim>\<open>src/src/modsecurity_proxy_wasm.cc\<close>, and the loop
  over the characters of a quoted JSON string that \<^verbatim>\<open>src/src/waf_config.cc\<close> repeats in
  four extractors.
\<close>

section \<open>Escaping\<close>

text \<open>One lower-case hexadecimal digit, as \<^verbatim>\<open>snprintf("%04x")\<close> prints it.\<close>

definition hex_digit :: "nat \<Rightarrow> char" where
  "hex_digit d = (if d < 10 then char_of (48 + d) else char_of (87 + d))"

definition escape_char :: "char \<Rightarrow> string" where
  "escape_char c =
     (if c = DQUOTE then [BSLASH, DQUOTE]
      else if c = BSLASH then [BSLASH, BSLASH]
      else if c = LF then [BSLASH, CHR ''n'']
      else if c = CR then [BSLASH, CHR ''r'']
      else if c = TAB then [BSLASH, CHR ''t'']
      else if byte c < 0x20
        then BSLASH # ''u00'' @ [hex_digit (byte c div 16), hex_digit (byte c mod 16)]
      else [c])"

fun jsonEscape :: "string \<Rightarrow> string" where
  "jsonEscape [] = []"
| "jsonEscape (c # cs) = escape_char c @ jsonEscape cs"

text \<open>Classic ModSecurity fragments: quotes, brackets and control characters become blanks.\<close>

fun classic_loop :: "string \<Rightarrow> nat \<Rightarrow> string \<Rightarrow> string" where
  "classic_loop [] max_len out = out"
| "classic_loop (c # cs) max_len out =
     (if length out < max_len then
        (if c = DQUOTE \<or> c = CHR ''['' \<or> c = CHR '']'' \<or> c = LF \<or> c = CR \<or> c = TAB
           then classic_loop cs max_len (out @ '' '')
         else if byte c < 0x20 then classic_loop cs max_len (out @ '' '')
         else classic_loop cs max_len (out @ [c]))
      else out)"

definition classicLogSanitize :: "string \<Rightarrow> nat \<Rightarrow> string" where
  "classicLogSanitize s max_len = classic_loop s max_len []"

section \<open>Scanning a quoted string\<close>

definition unescape_char :: "char \<Rightarrow> char" where
  "unescape_char c =
     (if c = CHR ''n'' then LF
      else if c = CHR ''r'' then CR
      else if c = CHR ''t'' then TAB
      else if c = DQUOTE then DQUOTE
      else if c = BSLASH then BSLASH
      else c)"

text \<open>
  The loop body shared by the extractors. The input is the text after the opening quote;
  the result is the decoded value and the number of characters read before the closing
  quote, or before the end of the text when there is no closing quote.
\<close>

fun scan_string :: "bool \<Rightarrow> string \<Rightarrow> string \<times> nat" where
  "scan_string escape [] = ([], 0)"
| "scan_string escape (c # cs) =
     (if escape then map_prod ((#) (unescape_char c)) Suc (scan_string False cs)
      else if c = BSLASH then map_prod id Suc (scan_string True cs)
      else if c = DQUOTE then ([], 0)
      else map_prod ((#) c) Suc (scan_string False cs))"

lemma scan_string_bound: "snd (scan_string e s) \<le> length s"
  by (induction e s rule: scan_string.induct) auto

lemma scan_string_length: "length (fst (scan_string e s)) \<le> snd (scan_string e s)"
  by (induction e s rule: scan_string.induct) auto

text \<open>The scan stops at a closing quote unless it reaches the end of the text.\<close>

lemma scan_string_stop:
  "snd (scan_string e s) < length s \<Longrightarrow> s ! snd (scan_string e s) = DQUOTE"
  by (induction e s rule: scan_string.induct) (auto split: if_splits)

section \<open>What escaping guarantees\<close>

definition control :: "char \<Rightarrow> bool" where
  "control c \<longleftrightarrow> byte c < 0x20"

text \<open>The characters the extractors can read back: every control except newline, return and tab is lost.\<close>

definition readable :: "char \<Rightarrow> bool" where
  "readable c \<longleftrightarrow> \<not> control c \<or> c = LF \<or> c = CR \<or> c = TAB"

lemma byte_eqD: "c = d \<Longrightarrow> byte c = byte d"
  by simp

lemma hex_digit_safe:
  assumes "d < 16"
  shows "\<not> control (hex_digit d)" and "hex_digit d \<noteq> DQUOTE" and "hex_digit d \<noteq> BSLASH"
proof -
  have b: "byte (hex_digit d) = (if d < 10 then 48 + d else 87 + d)"
    using assms by (simp add: hex_digit_def)
  show "\<not> control (hex_digit d)" using b by (simp add: control_def)
  show "hex_digit d \<noteq> DQUOTE" using b by (auto dest: byte_eqD split: if_splits)
  show "hex_digit d \<noteq> BSLASH" using b assms by (auto dest: byte_eqD split: if_splits)
qed

text \<open>
  Every character is escaped to a text the scanner reads as one step of the value: the value
  gains \<open>decoded c\<close> and the scan is back outside an escape.
\<close>

definition decoded :: "char \<Rightarrow> string" where
  "decoded c = (if readable c then [c]
     else ''u00'' @ [hex_digit (byte c div 16), hex_digit (byte c mod 16)])"

text \<open>A character that stands for itself in a JSON string.\<close>

definition plain_char :: "char \<Rightarrow> bool" where
  "plain_char c \<longleftrightarrow> escape_char c = [c] \<and> c \<noteq> DQUOTE \<and> c \<noteq> BSLASH"

lemma jsonEscape_plain: "list_all plain_char s \<Longrightarrow> jsonEscape s = s"
  by (induction s) (auto simp: plain_char_def)

lemma scan_plain: "c \<noteq> DQUOTE \<Longrightarrow> c \<noteq> BSLASH \<Longrightarrow>
    scan_string False (c # s) = map_prod ((#) c) Suc (scan_string False s)"
  by simp

lemma scan_escape_char:
  "scan_string False (escape_char c @ s) =
     map_prod ((@) (decoded c)) ((+) (length (escape_char c))) (scan_string False s)"
proof (cases "control c \<and> c \<noteq> LF \<and> c \<noteq> CR \<and> c \<noteq> TAB")
  case True
  then have lt: "byte c < 0x20" by (simp add: control_def)
  then have h: "byte c div 16 < 16" "byte c mod 16 < 16" by auto
  have ne: "c \<noteq> DQUOTE" "c \<noteq> BSLASH" using lt by (auto dest: byte_eqD)
  have e: "escape_char c = BSLASH # ''u00'' @ [hex_digit (byte c div 16), hex_digit (byte c mod 16)]"
    using True lt ne by (simp add: escape_char_def)
  have d: "decoded c = ''u00'' @ [hex_digit (byte c div 16), hex_digit (byte c mod 16)]"
    using True by (simp add: decoded_def readable_def)
  show ?thesis
    using hex_digit_safe [OF h(1)] hex_digit_safe [OF h(2)]
    by (cases "scan_string False s") (simp add: e d unescape_char_def)
next
  case False
  then have d: "decoded c = [c]" by (auto simp: decoded_def readable_def)
  obtain v n where r: "scan_string False s = (v, n)" by (cases "scan_string False s")
  have "escape_char c = [c]" if "c \<notin> {DQUOTE, BSLASH, LF, CR, TAB}"
    using False that by (auto simp: escape_char_def control_def)
  then consider "c = DQUOTE" | "c = BSLASH" | "c = LF" | "c = CR" | "c = TAB"
    | "escape_char c = [c]" "c \<noteq> DQUOTE" "c \<noteq> BSLASH"
    by blast
  then show ?thesis
  proof cases
    case 6
    then show ?thesis by (simp add: d r)
  qed (use d in \<open>simp_all add: r escape_char_def unescape_char_def\<close>)
qed

lemma scan_jsonEscape [string_laws]:
  "scan_string False (jsonEscape s @ t) =
     map_prod ((@) (concat (map decoded s))) ((+) (length (jsonEscape s))) (scan_string False t)"
  by (induction s) (simp_all add: scan_escape_char prod.map_comp comp_def map_prod_def split: prod.splits)

lemma decoded_readable: "\<forall>c \<in> set s. readable c \<Longrightarrow> concat (map decoded s) = s"
  by (induction s) (auto simp: decoded_def)

lemma escape_char_no_control: "d \<in> set (escape_char c) \<Longrightarrow> \<not> control d"
proof -
  assume "d \<in> set (escape_char c)"
  moreover have "byte c < 0x20 \<Longrightarrow> byte c div 16 < 16 \<and> byte c mod 16 < 16" by auto
  ultimately show ?thesis
    using hex_digit_safe(1) by (auto simp: escape_char_def control_def split: if_splits)
qed

lemma jsonEscape_no_control: "d \<in> set (jsonEscape s) \<Longrightarrow> \<not> control d"
  by (induction s) (auto dest: escape_char_no_control)

lemma jsonEscape_append [simp]: "jsonEscape (s @ t) = jsonEscape s @ jsonEscape t"
  by (induction s) auto

section \<open>Classic fragments\<close>

definition classic_char :: "char \<Rightarrow> char" where
  "classic_char c =
     (if c = DQUOTE \<or> c = CHR ''['' \<or> c = CHR '']'' \<or> control c then CHR '' '' else c)"

lemma classic_loop_eq:
  "length out \<le> n \<Longrightarrow> classic_loop s n out = out @ map classic_char (take (n - length out) s)"
proof (induction s n out rule: classic_loop.induct)
  case (1 n out)
  then show ?case by simp
next
  case (2 c cs n out)
  show ?case
  proof (cases "length out < n")
    case True
    then have t: "take (n - length out) (c # cs) = c # take (n - Suc (length out)) cs"
      by (simp add: take_Cons' Suc_diff_Suc)
    have lf: "control LF" "control CR" "control TAB" by (simp_all add: control_def)
    show ?thesis
      using True 2 lf by (auto simp: t classic_char_def control_def)
  next
    case False
    with "2.prems" show ?thesis by simp
  qed
qed

lemma classicLogSanitize_eq: "classicLogSanitize s n = map classic_char (take n s)"
  by (simp add: classicLogSanitize_def classic_loop_eq)

section \<open>Properties\<close>

text \<open>
  C28: a field of a structured log line cannot break out of its quotes.
  Whatever bytes the request put into the text, the escaped text holds no control byte, and a
  scanner of JSON strings that starts behind the opening quote reads exactly to the closing
  quote the formatter wrote: it gets the text back with the unreadable controls as four-digit
  codes.
\<close>

theorem jsonEscape_closed:
  "scan_string False (jsonEscape s @ DQUOTE # rest) =
     (concat (map decoded s), length (jsonEscape s)) \<and>
   list_all (\<lambda>c. \<not> control c) (jsonEscape s)"
  by (simp add: scan_jsonEscape list_all_iff jsonEscape_no_control)

text \<open>
  A fragment of a classic log line keeps its length up to the
  limit and every byte except quotes, brackets and controls, which become blanks: it can
  neither close the bracket or the quote it stands in nor start a new line.
\<close>

theorem classicLogSanitize_safe:
  "classicLogSanitize s n = map classic_char (take n s) \<and>
   length (classicLogSanitize s n) = min n (length s) \<and>
   list_all (\<lambda>c. \<not> control c \<and> c \<noteq> DQUOTE \<and> c \<noteq> CHR ''['' \<and> c \<noteq> CHR '']'') (classicLogSanitize s n)"
  by (auto simp: classicLogSanitize_eq list_all_iff classic_char_def control_def)

end
