(* ===== verification/Cxx_Num.thy ===== *)
theory Cxx_Num
  imports Complex_Main Prelude
begin

text \<open>
  The numeric conversions of the standard library that the sources call on configuration
  and header text, on the \<^verbatim>\<open>wasm32\<close> target (\<^verbatim>\<open>int\<close>, \<^verbatim>\<open>long\<close> and \<^verbatim>\<open>size_t\<close> of 32
  bits, \<^verbatim>\<open>unsigned long long\<close> of 64 bits): \<^verbatim>\<open>std::stoi\<close>, \<^verbatim>\<open>strtol\<close>,
  \<^verbatim>\<open>strtoull\<close> in base ten, and \<^verbatim>\<open>strtod\<close> on binary64 values with round to nearest,
  ties to even. Signed zeros are not told apart.
\<close>

section \<open>Integers\<close>

definition dec_val :: "string \<Rightarrow> int" where
  "dec_val ds = foldl (\<lambda>a c. 10 * a + (of_char c - 48)) 0 ds"

text \<open>An optional sign.\<close>

fun split_sign :: "string \<Rightarrow> bool \<times> string" where
  "split_sign [] = (False, [])"
| "split_sign (c # cs) =
     (if c = CHR ''-'' then (True, cs) else if c = CHR ''+'' then (False, cs) else (False, c # cs))"

text \<open>White space, sign and digits: \<open>None\<close> when no digit follows (\<^verbatim>\<open>end == str\<close>).\<close>

definition scan_int :: "string \<Rightarrow> (bool \<times> int) option" where
  "scan_int s =
     (let (neg, t) = split_sign (dropWhile is_space s); ds = takeWhile is_digit t
      in if ds = [] then None else Some (neg, dec_val ds))"

definition signed :: "bool \<Rightarrow> int \<Rightarrow> int" where
  "signed neg m = (if neg then - m else m)"

definition int_min :: int where "int_min = - (2 ^ 31)"
definition int_max :: int where "int_max = 2 ^ 31 - 1"

text \<open>Conversion of a 64-bit unsigned number to \<^verbatim>\<open>int\<close>.\<close>

definition to_int32 :: "nat \<Rightarrow> int" where
  "to_int32 n = (let m = int n mod 2 ^ 32 in if 2 ^ 31 \<le> m then m - 2 ^ 32 else m)"

text \<open>\<open>None\<close> where \<^verbatim>\<open>std::stoi\<close> throws \<^verbatim>\<open>invalid_argument\<close> or \<^verbatim>\<open>out_of_range\<close>.\<close>

definition stoi :: "string \<Rightarrow> int option" where
  "stoi s = (case scan_int s of None \<Rightarrow> None
     | Some (neg, m) \<Rightarrow>
         (let v = signed neg m in if int_min \<le> v \<and> v \<le> int_max then Some v else None))"

definition strtol :: "string \<Rightarrow> int option" where
  "strtol s = (case scan_int s of None \<Rightarrow> None
     | Some (neg, m) \<Rightarrow> Some (max int_min (min int_max (signed neg m))))"

text \<open>A sign is accepted and negates modulo $2^{64}$; too large a magnitude saturates.\<close>

definition strtoull :: "string \<Rightarrow> int option" where
  "strtoull s = (case scan_int s of None \<Rightarrow> None
     | Some (neg, m) \<Rightarrow>
         Some (if 2 ^ 64 \<le> m then 2 ^ 64 - 1 else if neg then (- m) mod 2 ^ 64 else m))"

lemma of_char_int: "(of_char c :: int) = int (byte c)"
  by (simp add: of_char_def)

lemma dec_val_snoc: "dec_val (ds @ [c]) = 10 * dec_val ds + (of_char c - 48)"
  by (simp add: dec_val_def)

lemma dec_val_nonneg: "\<forall>c \<in> set ds. is_digit c \<Longrightarrow> 0 \<le> dec_val ds"
proof (induction ds rule: rev_induct)
  case Nil
  then show ?case by (simp add: dec_val_def)
next
  case (snoc c ds)
  then show ?case by (simp add: dec_val_snoc is_digit_def of_char_int)
qed

lemma takeWhile_is_digit: "c \<in> set (takeWhile is_digit s) \<Longrightarrow> is_digit c"
  by (auto dest: set_takeWhileD)

lemma stoi_range: "stoi s = Some v \<Longrightarrow> int_min \<le> v \<and> v \<le> int_max"
  by (auto simp: stoi_def Let_def split: option.splits if_splits)

lemma strtol_range: "strtol s = Some v \<Longrightarrow> int_min \<le> v \<and> v \<le> int_max"
  by (auto simp: strtol_def int_min_def int_max_def split: option.splits)

lemma scan_int_nonneg: "scan_int s = Some (neg, m) \<Longrightarrow> 0 \<le> m"
  by (auto simp: scan_int_def Let_def dec_val_nonneg takeWhile_is_digit split: prod.splits if_splits)

lemma strtoull_range: "strtoull s = Some v \<Longrightarrow> 0 \<le> v \<and> v < 2 ^ 64"
  by (auto simp: strtoull_def dest: scan_int_nonneg split: option.splits if_splits)

text \<open>Printing and reading back.\<close>

lemma dec_val_digit: "d < 10 \<Longrightarrow> dec_val [digit_char d] = int d"
  by (simp add: dec_val_def digit_char_def of_char_int)

lemma dec_val_nat_to_string: "dec_val (nat_to_string n) = int n"
proof (induction n rule: nat_to_string.induct)
  case (1 n)
  show ?case
  proof (cases "n < 10")
    case True
    then show ?thesis by (subst nat_to_string.simps) (simp add: dec_val_digit)
  next
    case False
    then have "nat_to_string n = nat_to_string (n div 10) @ [digit_char (n mod 10)]"
      by (subst nat_to_string.simps) simp
    then have "dec_val (nat_to_string n) = 10 * int (n div 10) + (of_char (digit_char (n mod 10)) - 48)"
      using False 1 by (simp add: dec_val_snoc)
    also have "\<dots> = 10 * int (n div 10) + int (n mod 10)"
      by (simp add: of_char_int digit_char_def)
    also have "\<dots> = int n" by presburger
    finally show ?thesis .
  qed
qed

lemma nat_to_string_inject: "nat_to_string m = nat_to_string n \<longleftrightarrow> m = n"
  by (metis dec_val_nat_to_string of_nat_eq_iff)

section \<open>Binary floating point\<close>

datatype double = Fin rat | Inf bool | NaN

function bit_len :: "int \<Rightarrow> int" where
  "bit_len n = (if n \<le> 0 then 0 else 1 + bit_len (n div 2))"
  by pat_completeness auto
termination
  by (relation "measure nat") auto

declare bit_len.simps [simp del]

definition pow2 :: "int \<Rightarrow> rat" where
  "pow2 k = (if 0 \<le> k then 2 ^ nat k else 1 / 2 ^ nat (- k))"

definition round_half_even :: "rat \<Rightarrow> int" where
  "round_half_even q =
     (let f = floor q; r = q - of_int f
      in if r < 1 / 2 then f else if 1 / 2 < r then f + 1 else if even f then f else f + 1)"

text \<open>The exponent of the binade of a positive rational.\<close>

definition binade :: "rat \<Rightarrow> int" where
  "binade q =
     (let (a, b) = quotient_of q; k = bit_len a - bit_len b
      in if pow2 k \<le> q then k else k - 1)"

definition double_of_rat :: "rat \<Rightarrow> double" where
  "double_of_rat q =
     (if q = 0 then Fin 0
      else (let u = max (binade \<bar>q\<bar> - 52) (- 1074);
                v = of_int (round_half_even (\<bar>q\<bar> / pow2 u)) * pow2 u
            in if 2 ^ 1024 \<le> v then Inf (q < 0) else Fin (if q < 0 then - v else v)))"

text \<open>Comparisons, false on NaN.\<close>

fun dbl_less :: "double \<Rightarrow> double \<Rightarrow> bool" where
  "dbl_less (Fin a) (Fin b) = (a < b)"
| "dbl_less (Fin a) (Inf neg) = (\<not> neg)"
| "dbl_less (Inf neg) (Fin b) = neg"
| "dbl_less (Inf n1) (Inf n2) = (n1 \<and> \<not> n2)"
| "dbl_less _ _ = False"

fun dbl_le :: "double \<Rightarrow> double \<Rightarrow> bool" where
  "dbl_le (Fin a) (Fin b) = (a \<le> b)"
| "dbl_le (Fin a) (Inf neg) = (\<not> neg)"
| "dbl_le (Inf neg) (Fin b) = neg"
| "dbl_le (Inf n1) (Inf n2) = (n1 \<or> \<not> n2)"
| "dbl_le _ _ = False"

definition hex_val :: "char \<Rightarrow> nat option" where
  "hex_val c = (let b = byte c in
     if 48 \<le> b \<and> b \<le> 57 then Some (b - 48)
     else if 97 \<le> b \<and> b \<le> 102 then Some (b - 87)
     else if 65 \<le> b \<and> b \<le> 70 then Some (b - 55) else None)"

definition is_hex :: "char \<Rightarrow> bool" where
  "is_hex c \<longleftrightarrow> hex_val c \<noteq> None"

definition hex_num :: "string \<Rightarrow> int" where
  "hex_num ds = foldl (\<lambda>a c. 16 * a + (case hex_val c of None \<Rightarrow> 0 | Some d \<Rightarrow> int d)) 0 ds"

text \<open>Digits with an optional point: the digits before and after it and the rest.\<close>

definition split_point :: "(char \<Rightarrow> bool) \<Rightarrow> string \<Rightarrow> string \<times> string \<times> string" where
  "split_point isd s =
     (let w = takeWhile isd s; t = dropWhile isd s
      in if t \<noteq> [] \<and> hd t = CHR ''.''
         then (w, takeWhile isd (tl t), dropWhile isd (tl t)) else (w, [], t))"

text \<open>An optional exponent introduced by one of the given letters.\<close>

definition scan_exponent :: "string \<Rightarrow> string \<Rightarrow> int" where
  "scan_exponent letters s =
     (if s \<noteq> [] \<and> hd s \<in> set letters then
        (let (neg, t) = split_sign (tl s); ds = takeWhile is_digit t
         in if ds = [] then 0 else signed neg (dec_val ds))
      else 0)"

definition ten_pow :: "int \<Rightarrow> rat" where
  "ten_pow k = (if 0 \<le> k then 10 ^ nat k else 1 / 10 ^ nat (- k))"

definition scan_decimal :: "string \<Rightarrow> rat option" where
  "scan_decimal s =
     (let (w, f, t) = split_point is_digit s
      in if w @ f = [] then None
         else Some (of_int (dec_val (w @ f)) * ten_pow (scan_exponent ''eE'' t - int (length f))))"

definition scan_hex :: "string \<Rightarrow> rat option" where
  "scan_hex s =
     (let (w, f, t) = split_point is_hex s
      in if w @ f = [] then None
         else Some (of_int (hex_num (w @ f)) * pow2 (scan_exponent ''pP'' t - 4 * int (length f))))"

definition lower :: "string \<Rightarrow> string" where
  "lower s = map to_lower s"

definition signed_double :: "bool \<Rightarrow> rat \<Rightarrow> double" where
  "signed_double neg q = double_of_rat (if neg then - q else q)"

text \<open>\<open>None\<close> when no conversion is performed (\<^verbatim>\<open>end == str\<close>).\<close>

definition strtod :: "string \<Rightarrow> double option" where
  "strtod s =
     (let (neg, t) = split_sign (dropWhile is_space s)
      in if starts_with (lower t) ''inf'' then Some (Inf neg)
         else if starts_with (lower t) ''nan'' then Some NaN
         else if starts_with (lower t) ''0x'' then
           (case scan_hex (drop 2 t) of Some q \<Rightarrow> Some (signed_double neg q) | None \<Rightarrow> Some (Fin 0))
         else map_option (signed_double neg) (scan_decimal t))"

end
