(* ===== verification/Json_Scan.thy ===== *)
theory Json_Scan
  imports Json_Escape Cxx_Num
begin

text \<open>
  The hand-written JSON extractors of \<^verbatim>\<open>src/src/waf_config.cc\<close>: they search the raw text
  for a quoted key and read what follows it, without building a tree. Output arguments of the
  C++ functions that are only meaningful when the function returns true become \<open>option\<close>
  results.
\<close>

section \<open>Shape of the configuration\<close>

definition looksLikeJson :: "string \<Rightarrow> bool" where
  "looksLikeJson s = (let t = trim s in t \<noteq> [] \<and> hd t = CHR ''{'')"

section \<open>Matching brackets\<close>

text \<open>
  The loop of \<^verbatim>\<open>findJsonObjectEnd\<close> and \<^verbatim>\<open>findJsonArrayEnd\<close>, which differ only in the
  bracket characters. The position of the head of the text is carried along.
\<close>

fun find_close :: "char \<Rightarrow> char \<Rightarrow> string \<Rightarrow> nat \<Rightarrow> int \<Rightarrow> bool \<Rightarrow> bool \<Rightarrow> nat option" where
  "find_close op cl [] i depth in_string escape = None"
| "find_close op cl (c # cs) i depth in_string escape =
     (if in_string then
        (if escape then find_close op cl cs (Suc i) depth True False
         else if c = BSLASH then find_close op cl cs (Suc i) depth True True
         else if c = DQUOTE then find_close op cl cs (Suc i) depth False False
         else find_close op cl cs (Suc i) depth True False)
      else if c = DQUOTE then find_close op cl cs (Suc i) depth True escape
      else if c = op then find_close op cl cs (Suc i) (depth + 1) False escape
      else if c = cl then
        (if depth - 1 = 0 then Some i else find_close op cl cs (Suc i) (depth - 1) False escape)
      else find_close op cl cs (Suc i) depth False escape)"

definition findJsonObjectEnd :: "string \<Rightarrow> nat \<Rightarrow> nat option" where
  "findJsonObjectEnd json obj_start =
     (if length json \<le> obj_start \<or> json ! obj_start \<noteq> CHR ''{'' then None
      else find_close (CHR ''{'') (CHR ''}'') (drop obj_start json) obj_start 0 False False)"

definition findJsonArrayEnd :: "string \<Rightarrow> nat \<Rightarrow> nat option" where
  "findJsonArrayEnd json arr_start =
     (if length json \<le> arr_start \<or> json ! arr_start \<noteq> CHR ''['' then None
      else find_close (CHR ''['') (CHR '']'') (drop arr_start json) arr_start 0 False False)"

section \<open>Values by key\<close>

definition quoted :: "string \<Rightarrow> string" where
  "quoted key = DQUOTE # key @ [DQUOTE]"

lemma length_quoted [simp]: "length (quoted key) = length key + 2"
  by (simp add: quoted_def)

text \<open>
  \<^verbatim>\<open>extractJsonObjectSlice\<close>: the loop retries behind the key when a token other than an
  opening brace follows the colon.
\<close>

function slice_loop :: "string \<Rightarrow> string \<Rightarrow> nat \<Rightarrow> string option" where
  "slice_loop json key pos =
     (if pos < length json then
        (case find_str json (quoted key) pos of None \<Rightarrow> None
         | Some key_pos \<Rightarrow>
           (case find_char json (CHR '':'') (key_pos + length (quoted key)) of None \<Rightarrow> None
            | Some colon \<Rightarrow>
              (case find_char json (CHR ''{'') colon of None \<Rightarrow> None
               | Some obj_start \<Rightarrow>
                 (if trim (substr (colon + 1) (obj_start - colon - 1) json) \<noteq> []
                  then slice_loop json key (key_pos + length (quoted key))
                  else (case findJsonObjectEnd json obj_start of None \<Rightarrow> None
                        | Some obj_end \<Rightarrow> Some (substr obj_start (obj_end - obj_start + 1) json))))))
      else None)"
  by pat_completeness auto
termination
  by (relation "measure (\<lambda>(json, key, pos). length json - pos)") (auto dest: find_str_bounds)

declare slice_loop.simps [simp del]

definition extractJsonObjectSlice :: "string \<Rightarrow> string \<Rightarrow> string option" where
  "extractJsonObjectSlice json key = slice_loop json key 0"

text \<open>\<^verbatim>\<open>extractStringMapFromObject\<close>: pairs in the order of the text, values that are not strings skipped.\<close>

function map_loop :: "string \<Rightarrow> nat \<Rightarrow> (string \<times> string) list \<Rightarrow> (string \<times> string) list" where
  "map_loop obj i out =
     (if i < length obj then
        (case find_char obj DQUOTE i of None \<Rightarrow> out
         | Some key_quote \<Rightarrow>
           (case find_char obj DQUOTE (key_quote + 1) of None \<Rightarrow> out
            | Some key_end \<Rightarrow>
              (case find_char obj (CHR '':'') key_end of None \<Rightarrow> out
               | Some colon \<Rightarrow>
                 (case find_char obj DQUOTE colon of None \<Rightarrow> out
                  | Some val_quote \<Rightarrow>
                    (if trim (substr (colon + 1) (val_quote - colon - 1) obj) \<noteq> [] then
                       (case find_first_of obj '',}'' (colon + 1) of None \<Rightarrow> out
                        | Some nxt \<Rightarrow> map_loop obj (nxt + 1) out)
                     else
                       (let label_key = substr (key_quote + 1) (key_end - key_quote - 1) obj;
                            (label_value, n) = scan_string False (drop (val_quote + 1) obj);
                            p = val_quote + 1 + n;
                            out' = (if label_key \<noteq> [] then out @ [(label_key, label_value)] else out)
                        in (case find_first_not_of obj ('' '' @ [TAB, LF, CR] @ '','') (p + 1) of
                              None \<Rightarrow> out'
                            | Some nxt \<Rightarrow>
                                if obj ! nxt = CHR ''}'' then out' else map_loop obj nxt out')))))))
      else out)"
  by pat_completeness auto
termination
  by (relation "measure (\<lambda>(obj, i, out). length obj - i)") (auto dest!: search_bounds)

declare map_loop.simps [simp del]

definition extractStringMapFromObject :: "string \<Rightarrow> (string \<times> string) list option" where
  "extractStringMapFromObject obj =
     (if obj = [] \<or> hd obj \<noteq> CHR ''{'' then None else Some (map_loop obj 1 []))"

definition extractMetricLabels :: "string \<Rightarrow> (string \<times> string) list option" where
  "extractMetricLabels json =
     (case extractJsonObjectSlice json ''metric_labels'' of None \<Rightarrow> Some []
      | Some obj \<Rightarrow> extractStringMapFromObject obj)"

text \<open>The text after the colon of the first occurrence of a quoted key.\<close>

definition value_tail :: "string \<Rightarrow> string \<Rightarrow> string option" where
  "value_tail json key =
     (case find_str json (quoted key) 0 of None \<Rightarrow> None
      | Some pos \<Rightarrow>
        (case find_char json (CHR '':'') (pos + length (quoted key)) of None \<Rightarrow> None
         | Some colon \<Rightarrow> Some (drop (colon + 1) json)))"

definition extractJsonBoolValue :: "string \<Rightarrow> string \<Rightarrow> bool \<Rightarrow> bool" where
  "extractJsonBoolValue json key default_value =
     (case value_tail json key of None \<Rightarrow> default_value
      | Some t \<Rightarrow>
        (let tail = trim t
         in if starts_with tail ''true'' then True
            else if starts_with tail ''false'' then False
            else default_value))"

definition extractJsonIntValue :: "string \<Rightarrow> string \<Rightarrow> int \<Rightarrow> int" where
  "extractJsonIntValue json key default_value =
     (case value_tail json key of None \<Rightarrow> default_value
      | Some t \<Rightarrow>
        (let tail = trim t
         in if tail = [] \<or> (\<not> is_digit (hd tail) \<and> hd tail \<noteq> CHR ''-'') then default_value
            else (case stoi tail of None \<Rightarrow> default_value | Some v \<Rightarrow> v)))"

text \<open>
  \<^verbatim>\<open>extractJsonStringValue\<close> searches the opening quote from the colon on, whatever stands
  between them; the empty string is also the answer when anything is missing.
\<close>

definition extractJsonStringValue :: "string \<Rightarrow> string \<Rightarrow> string" where
  "extractJsonStringValue json key =
     (case find_str json (quoted key) 0 of None \<Rightarrow> []
      | Some pos \<Rightarrow>
        (case find_char json (CHR '':'') (pos + length (quoted key)) of None \<Rightarrow> []
         | Some colon \<Rightarrow>
           (case find_char json DQUOTE colon of None \<Rightarrow> []
            | Some q \<Rightarrow> fst (scan_string False (drop (q + 1) json)))))"

definition extractJsonNumberValue :: "string \<Rightarrow> string \<Rightarrow> double \<Rightarrow> double" where
  "extractJsonNumberValue json key default_value =
     (let as_str = extractJsonStringValue json key;
          first = (if as_str \<noteq> [] then strtod as_str else None)
      in case first of Some v \<Rightarrow> v
         | None \<Rightarrow>
           (case value_tail json key of None \<Rightarrow> default_value
            | Some t \<Rightarrow>
              (let tail = trim t
               in if tail = [] then default_value
                  else (case strtod tail of None \<Rightarrow> default_value | Some v \<Rightarrow> v))))"

section \<open>The directives map\<close>

definition white :: string where
  "white = '' '' @ [TAB, LF, CR]"

definition findDirectivesMapProfileValue :: "string \<Rightarrow> string \<Rightarrow> nat option" where
  "findDirectivesMapProfileValue json profile =
     (case find_str json (quoted ''directives_map'') 0 of None \<Rightarrow> None
      | Some map_pos \<Rightarrow>
        (case find_str json (quoted profile) map_pos of None \<Rightarrow> None
         | Some prof_pos \<Rightarrow>
           (case find_char json (CHR '':'') (prof_pos + length (quoted profile)) of None \<Rightarrow> None
            | Some colon \<Rightarrow> find_first_not_of json white (colon + 1))))"

text \<open>The loop of \<^verbatim>\<open>extractDirectiveArray\<close>: quoted items up to the closing bracket, empty items dropped.\<close>

function array_loop :: "string \<Rightarrow> nat \<Rightarrow> nat \<Rightarrow> string list \<Rightarrow> string list" where
  "array_loop json arr_end i out =
     (if i < arr_end then
        (case find_char json DQUOTE i of None \<Rightarrow> out
         | Some q0 \<Rightarrow>
           (if arr_end \<le> q0 then out
            else
              (let (item, n) = scan_string False (drop (q0 + 1) json);
                   q = q0 + 1 + n;
                   out' = (if item \<noteq> [] then out @ [item] else out)
               in (case find_first_not_of json (white @ '','') (q + 1) of None \<Rightarrow> out'
                   | Some nxt \<Rightarrow>
                       if arr_end \<le> nxt then out'
                       else if json ! nxt = CHR '']'' then out'
                       else array_loop json arr_end nxt out'))))
      else out)"
  by pat_completeness auto
termination
  by (relation "measure (\<lambda>(json, arr_end, i, out). arr_end - i)") (auto dest!: search_bounds)

declare array_loop.simps [simp del]

definition extractDirectiveArray :: "string \<Rightarrow> string \<Rightarrow> string list" where
  "extractDirectiveArray json profile =
     (case findDirectivesMapProfileValue json profile of None \<Rightarrow> []
      | Some v \<Rightarrow>
        (if json ! v \<noteq> CHR ''['' then []
         else (case findJsonArrayEnd json v of None \<Rightarrow> []
               | Some arr_end \<Rightarrow> array_loop json arr_end (v + 1) [])))"

definition extractDirectiveMapString :: "string \<Rightarrow> string \<Rightarrow> string" where
  "extractDirectiveMapString json profile =
     (case findDirectivesMapProfileValue json profile of None \<Rightarrow> []
      | Some v \<Rightarrow>
        (if json ! v \<noteq> DQUOTE then []
         else fst (scan_string False (drop (v + 1) json))))"

section \<open>Reference documents\<close>

text \<open>
  JSON values and their compact text: the documents an operator emits. Strings are escaped as
  \<^verbatim>\<open>jsonEscape\<close> does; an atom is a number, \<^verbatim>\<open>true\<close>, \<^verbatim>\<open>false\<close> or \<^verbatim>\<open>null\<close>.
\<close>

datatype json = JStr string | JAtom string | JArr "json list" | JObj "(string \<times> json) list"

fun render_str :: "string \<Rightarrow> string" where
  "render_str s = DQUOTE # jsonEscape s @ [DQUOTE]"

fun render :: "json \<Rightarrow> string"
  and render_items :: "json list \<Rightarrow> string"
  and render_members :: "(string \<times> json) list \<Rightarrow> string" where
  "render (JStr s) = render_str s"
| "render (JAtom a) = a"
| "render (JArr vs) = ''['' @ render_items vs @ '']''"
| "render (JObj kvs) = ''{'' @ render_members kvs @ ''}''"
| "render_items [] = []"
| "render_items (v # vs) = render v @ (if vs = [] then [] else '','' @ render_items vs)"
| "render_members [] = []"
| "render_members ((k, v) # kvs) =
     render_str k @ '':'' @ render v @ (if kvs = [] then [] else '','' @ render_members kvs)"

definition atom_char :: "char \<Rightarrow> bool" where
  "atom_char c \<longleftrightarrow> is_alnum c \<or> c = CHR ''-'' \<or> c = CHR ''+'' \<or> c = CHR ''.''"

fun wf_json :: "json \<Rightarrow> bool"
  and wf_items :: "json list \<Rightarrow> bool"
  and wf_members :: "(string \<times> json) list \<Rightarrow> bool" where
  "wf_json (JStr s) = True"
| "wf_json (JAtom a) = (\<forall>c \<in> set a. atom_char c)"
| "wf_json (JArr vs) = wf_items vs"
| "wf_json (JObj kvs) = wf_members kvs"
| "wf_items [] = True"
| "wf_items (v # vs) = (wf_json v \<and> wf_items vs)"
| "wf_members [] = True"
| "wf_members ((k, v) # kvs) = (wf_json v \<and> wf_members kvs)"

section \<open>Bracket pairs\<close>

lemma find_close_bounds:
  "find_close op cl s i d ins esc = Some j \<Longrightarrow> i \<le> j \<and> j < i + length s \<and> s ! (j - i) = cl"
proof (induction op cl s i d ins esc rule: find_close.induct)
  case (2 op cl c cs i d ins esc)
  have "i \<le> j \<and> j < i + length (c # cs) \<and> (c # cs) ! (j - i) = cl"
    if "Suc i \<le> j \<and> j < Suc i + length cs \<and> cs ! (j - Suc i) = cl"
    using that by (auto simp: nth_Cons')
  with 2 show ?case by (auto split: if_splits)
qed simp

locale bracket_pair =
  fixes op cl :: char
  assumes json_pair: "op = CHR ''{'' \<and> cl = CHR ''}'' \<or> op = CHR ''['' \<and> cl = CHR '']''"
begin

definition skipped :: "string \<Rightarrow> bool" where
  "skipped s \<longleftrightarrow> (\<forall>t i d. 1 \<le> d \<longrightarrow>
     find_close op cl (s @ t) i d False False = find_close op cl t (i + length s) d False False)"

lemma pair_neq: "op \<noteq> cl" "op \<noteq> DQUOTE" "cl \<noteq> DQUOTE"
  using json_pair by auto

lemma skipped_Nil: "skipped []"
  by (simp add: skipped_def)

lemma skipped_append: "skipped s \<Longrightarrow> skipped t \<Longrightarrow> skipped (s @ t)"
  by (simp add: skipped_def add.assoc)

lemma skipped_plain: "\<forall>c \<in> set s. c \<noteq> op \<and> c \<noteq> cl \<and> c \<noteq> DQUOTE \<Longrightarrow> skipped s"
proof (induction s)
  case (Cons c s)
  then have "skipped [c]" and "skipped s" by (auto simp: skipped_def)
  then show ?case using skipped_append [of "[c]" s] by simp
qed (rule skipped_Nil)

lemma in_string_escape_char:
  "find_close op cl (escape_char c @ t) i d True False =
     find_close op cl t (i + length (escape_char c)) d True False"
proof (cases "byte c < 0x20")
  case True
  then have h: "byte c div 16 < 16" "byte c mod 16 < 16" by auto
  show ?thesis
    using hex_digit_safe [OF h(1)] hex_digit_safe [OF h(2)] by (simp add: escape_char_def)
qed (auto simp: escape_char_def)

lemma in_string_jsonEscape:
  "find_close op cl (jsonEscape s @ t) i d True False =
     find_close op cl t (i + length (jsonEscape s)) d True False"
  by (induction s arbitrary: i) (simp_all add: in_string_escape_char add.assoc)

lemma skipped_str: "skipped (render_str s)"
  by (simp add: skipped_def in_string_jsonEscape add.commute add.left_commute)

lemma skipped_bracketed: "skipped s \<Longrightarrow> skipped (op # s @ [cl])"
  using pair_neq by (simp add: skipped_def)

lemma find_close_matches:
  "skipped s \<Longrightarrow> find_close op cl (op # s @ cl # t) i 0 False False = Some (i + 1 + length s)"
  using pair_neq by (simp add: skipped_def)

lemma atom_char_plain: "atom_char c \<Longrightarrow> c \<noteq> op \<and> c \<noteq> cl \<and> c \<noteq> DQUOTE"
  using json_pair by (auto simp: atom_char_def is_alnum_def is_digit_def is_alpha_def)

lemma skipped_punct: "skipped '',''" "skipped '':''"
  using json_pair by (auto intro!: skipped_plain)

lemma skipped_other:
  assumes "skipped s"
  shows "skipped (''['' @ s @ '']'')" and "skipped (''{'' @ s @ ''}'')"
  using json_pair assms skipped_bracketed
  by (auto simp: skipped_def)

lemma skipped_render:
  "wf_json v \<Longrightarrow> skipped (render v)"
  "wf_items vs \<Longrightarrow> skipped (render_items vs)"
  "wf_members kvs \<Longrightarrow> skipped (render_members kvs)"
proof (induction v and vs and kvs rule: render_render_items_render_members.induct)
  case (2 a)
  then show ?case by (auto intro!: skipped_plain dest: atom_char_plain)
next
  case (3 vs)
  then show ?case by (simp only: render.simps wf_json.simps skipped_other)
next
  case (4 kvs)
  then show ?case by (simp only: render.simps wf_json.simps skipped_other)
next
  case (6 v vs)
  then show ?case
    using skipped_append skipped_punct by (simp del: append.simps add: skipped_Nil)
next
  case (8 k v kvs)
  then show ?case
    using skipped_append skipped_punct skipped_str
    by (simp del: append.simps render_str.simps add: skipped_Nil)
qed (simp_all add: skipped_str skipped_Nil del: render_str.simps)

end

interpretation object_brackets: bracket_pair "CHR ''{''" "CHR ''}''"
  by unfold_locales simp

interpretation array_brackets: bracket_pair "CHR ''[''" "CHR '']''"
  by unfold_locales simp

lemma findJsonObjectEnd_bounds [search_bounds]:
  "findJsonObjectEnd json st = Some e \<Longrightarrow> st < e \<and> e < length json \<and> json ! e = CHR ''}''"
proof -
  assume a: "findJsonObjectEnd json st = Some e"
  then have st: "st < length json" "json ! st = CHR ''{''"
    and f: "find_close (CHR ''{'') (CHR ''}'') (drop st json) st 0 False False = Some e"
    by (auto simp: findJsonObjectEnd_def split: if_splits)
  from find_close_bounds [OF f] st have b: "st \<le> e" "e < length json" "json ! e = CHR ''}''"
    by auto
  with st have "st \<noteq> e" by auto
  with b show ?thesis by simp
qed

section \<open>Properties\<close>

lemma drop_front [simp]: "drop (length xs) (xs @ ys) = ys" "length xs < length (xs @ y # ys)"
  "(xs @ y # ys) ! length xs = y"
  by simp_all

lemma object_end:
  assumes "wf_members kvs"
  shows "findJsonObjectEnd (before @ CHR ''{'' # render_members kvs @ CHR ''}'' # after) (length before) =
    Some (length before + 1 + length (render_members kvs))"
  using object_brackets.find_close_matches [OF object_brackets.skipped_render(3) [OF assms], of "after"]
  by (simp add: findJsonObjectEnd_def)

lemma array_end:
  assumes "wf_items vs"
  shows "findJsonArrayEnd (before @ CHR ''['' # render_items vs @ CHR '']'' # after) (length before) =
    Some (length before + 1 + length (render_items vs))"
  using array_brackets.find_close_matches [OF array_brackets.skipped_render(2) [OF assms], of "after"]
  by (simp add: findJsonArrayEnd_def)

text \<open>
  JSON texts in general (RFC 8259): white space between the tokens, strings with any escape
  sequences. \<open>doc_text\<close> is the text of a syntax tree that keeps the white space: \<open>DArr w is\<close> has
  \<open>w\<close> after the bracket, \<open>Item d u v is\<close> has \<open>u\<close> after the value and \<open>v\<close> after the comma;
  a member has white space around its colon, too.
\<close>

datatype doc = DStr string | DAtom string | DArr string items | DObj string members
and items = EndItems | Item doc string string items
and members = EndMembers | Member string string string doc string string members

fun doc_text :: "doc \<Rightarrow> string"
  and items_text :: "items \<Rightarrow> string"
  and members_text :: "members \<Rightarrow> string" where
  "doc_text (DStr b) = quoted b"
| "doc_text (DAtom a) = a"
| "doc_text (DArr w is) = ''['' @ (w @ items_text is) @ '']''"
| "doc_text (DObj w ms) = ''{'' @ (w @ members_text ms) @ ''}''"
| "items_text EndItems = []"
| "items_text (Item d u v is) = doc_text d @ u @ (if is = EndItems then [] else '','' @ v @ items_text is)"
| "members_text EndMembers = []"
| "members_text (Member k u v d x y ms) =
     quoted k @ u @ '':'' @ v @ doc_text d @ x @ (if ms = EndMembers then [] else '','' @ y @ members_text ms)"

text \<open>The inside of a string: no quote but after a backslash, no backslash at the end.\<close>

fun string_body :: "string \<Rightarrow> bool" where
  "string_body [] = True"
| "string_body [c] = (c \<noteq> DQUOTE \<and> c \<noteq> BSLASH)"
| "string_body (c # d # cs) = (if c = BSLASH then string_body cs else c \<noteq> DQUOTE \<and> string_body (d # cs))"

definition blank :: "string \<Rightarrow> bool" where
  "blank w \<longleftrightarrow> list_all (\<lambda>c. c \<in> set white) w"

fun wf_doc :: "doc \<Rightarrow> bool"
  and wf_ditems :: "items \<Rightarrow> bool"
  and wf_dmembers :: "members \<Rightarrow> bool" where
  "wf_doc (DStr b) = string_body b"
| "wf_doc (DAtom a) = list_all atom_char a"
| "wf_doc (DArr w is) = (blank w \<and> wf_ditems is)"
| "wf_doc (DObj w ms) = (blank w \<and> wf_dmembers ms)"
| "wf_ditems EndItems = True"
| "wf_ditems (Item d u v is) = (wf_doc d \<and> blank u \<and> blank v \<and> wf_ditems is)"
| "wf_dmembers EndMembers = True"
| "wf_dmembers (Member k u v d x y ms) =
     (string_body k \<and> blank u \<and> blank v \<and> wf_doc d \<and> blank x \<and> blank y \<and> wf_dmembers ms)"

context bracket_pair
begin

lemma in_string_step:
  "c \<noteq> DQUOTE \<Longrightarrow> c \<noteq> BSLASH \<Longrightarrow>
    find_close op cl (c # s) i n True False = find_close op cl s (Suc i) n True False"
  "find_close op cl (BSLASH # c # s) i n True False = find_close op cl s (Suc (Suc i)) n True False"
  by (subst find_close.simps(2), simp)+

lemma in_string_body:
  "string_body b \<Longrightarrow> find_close op cl (b @ DQUOTE # t) i n True False =
     find_close op cl t (Suc (i + length b)) n False False"
proof (induction b arbitrary: i rule: string_body.induct)
  case (3 c d cs)
  show ?case
  proof (cases "c = BSLASH")
    case True
    with "3.prems" have "string_body cs" by simp
    from "3.IH"(1) [OF True this, of "Suc (Suc i)"] show ?thesis
      unfolding True append_Cons in_string_step(2) by simp
  next
    case False
    with "3.prems" have c: "c \<noteq> DQUOTE" "string_body (d # cs)" by simp_all
    from "3.IH"(2) [OF False c(2), of "Suc i"] show ?thesis
      unfolding append_Cons in_string_step(1) [OF c(1) False] by (simp only: list.size add_Suc add_Suc_right add_0_right)
  qed
qed simp_all

lemma skipped_quoted: "string_body b \<Longrightarrow> skipped (quoted b)"
  by (simp add: skipped_def quoted_def in_string_body)

lemma skipped_blank: "blank w \<Longrightarrow> skipped w"
proof (rule skipped_plain)
  have "c \<noteq> op \<and> c \<noteq> cl \<and> c \<noteq> DQUOTE" if "c \<in> set white" for c
  proof -
    have "c = CHR '' '' \<or> c = TAB \<or> c = LF \<or> c = CR" using that by (simp add: white_def)
    with json_pair show ?thesis by (elim disjE conjE) simp_all
  qed
  then show "\<forall>c \<in> set w. c \<noteq> op \<and> c \<noteq> cl \<and> c \<noteq> DQUOTE" if "blank w"
    using that by (simp add: blank_def list_all_iff)
qed

lemma skipped_doc:
  "wf_doc d \<Longrightarrow> skipped (doc_text d)"
  "wf_ditems is \<Longrightarrow> skipped (items_text is)"
  "wf_dmembers ms \<Longrightarrow> skipped (members_text ms)"
proof (induction d and "is" and ms rule: doc_text_items_text_members_text.induct)
  case (2 a)
  then show ?case by (auto intro!: skipped_plain dest: atom_char_plain simp: list_all_iff)
next
  case (3 w "is")
  then have "skipped (w @ items_text is)" by (simp add: skipped_append skipped_blank)
  then show ?case unfolding doc_text.simps by (rule skipped_other)
next
  case (4 w ms)
  then have "skipped (w @ members_text ms)" by (simp add: skipped_append skipped_blank)
  then show ?case unfolding doc_text.simps by (rule skipped_other)
next
  case (6 d u v "is")
  then show ?case
    using skipped_append skipped_punct skipped_blank by (simp del: append.simps add: skipped_Nil)
next
  case (8 k u v d x y ms)
  then show ?case
    using skipped_append skipped_punct skipped_blank skipped_quoted
    by (simp del: append.simps add: skipped_Nil)
qed (simp_all add: skipped_quoted skipped_Nil)

end

lemma doc_object_end:
  assumes "wf_doc (DObj w ms)"
  shows "findJsonObjectEnd (before @ doc_text (DObj w ms) @ after) (length before) =
    Some (length before + length (doc_text (DObj w ms)) - 1)"
proof -
  have "object_brackets.skipped (w @ members_text ms)"
    using assms by (simp add: object_brackets.skipped_append object_brackets.skipped_blank
        object_brackets.skipped_doc)
  from object_brackets.find_close_matches [OF this, of "after"] show ?thesis
    by (simp add: findJsonObjectEnd_def)
qed

text \<open>
  C36: in any text the bracket matcher finds the end of exactly the
  object it starts on, for every JSON object: with white space between its tokens, and whatever
  its strings and keys contain (braces, escaped quotes, backslashes, any escape sequence), and
  whatever follows it.
\<close>

theorem findJsonObjectEnd_matches:
  assumes "wf_doc (DObj w ms)"
  shows "findJsonObjectEnd (before @ doc_text (DObj w ms) @ after) (length before) =
    Some (length before + length (doc_text (DObj w ms)) - 1)"
  using assms by (rule doc_object_end)

lemma findJsonObjectEnd_matches_witness:
  "findJsonObjectEnd (''x: { '' @ quoted (''}'' @ [BSLASH] @ ''u007d'') @ '' :'' @ [LF] @ ''[ 1 , {} ] }}'') 3 = Some 28"
proof -
  let ?ms = "Member (''}'' @ [BSLASH] @ ''u007d'') '' '' [LF]
      (DArr '' '' (Item (DAtom ''1'') '' '' '' '' (Item (DObj [] EndMembers) '' '' [] EndItems))) '' '' [] EndMembers"
  have "wf_doc (DObj '' '' ?ms)"
    by (simp add: blank_def white_def atom_char_def is_alnum_def is_digit_def)
  from findJsonObjectEnd_matches [OF this, of "''x: ''" "''}''"] show ?thesis
    by (simp add: quoted_def eval_nat_numeral)
qed

text \<open>
  The same for arrays.
\<close>

theorem findJsonArrayEnd_matches:
  assumes "wf_items vs"
  shows "findJsonArrayEnd (before @ render (JArr vs) @ after) (length before) =
    Some (length before + length (render (JArr vs)) - 1)"
  using array_end [OF assms, of before "after"] by simp

lemma findJsonArrayEnd_matches_witness:
  "findJsonArrayEnd (''x:'' @ render (JArr [JStr '']'', JAtom ''1'']) @ '']'') 2 = Some 8"
  using findJsonArrayEnd_matches [of "[JStr '']'', JAtom ''1'']" "''x:''" "'']''"]
  by (simp add: escape_char_def eval_nat_numeral atom_char_def is_alnum_def is_digit_def)

section \<open>Reading directive arrays\<close>

lemma scan_render_str:
  "scan_string False (jsonEscape s @ DQUOTE # t) = (concat (map decoded s), length (jsonEscape s))"
  by (simp add: scan_jsonEscape)

definition read_items :: "string list \<Rightarrow> string list" where
  "read_items items = filter (\<lambda>i. i \<noteq> []) (map (\<lambda>i. concat (map decoded i)) items)"

lemma render_items_JStr:
  "render_items (map JStr (i # is)) = DQUOTE # jsonEscape i @ DQUOTE #
     (if is = [] then [] else CHR '','' # render_items (map JStr is))"
  by simp

lemma find_char_here: "find_char (pre @ c # t) c (length pre) = Some (length pre)"
  by (simp add: find_char_def find_pos_def)

lemma find_first_not_of_here:
  "c \<notin> set cs \<Longrightarrow> find_first_not_of (pre @ c # t) cs (length pre) = Some (length pre)"
  by (simp add: find_first_not_of_def find_pos_def)

lemma find_first_not_of_skip:
  "d \<in> set cs \<Longrightarrow> c \<notin> set cs \<Longrightarrow>
   find_first_not_of (pre @ d # c # t) cs (length pre) = Some (Suc (length pre))"
  by (simp add: find_first_not_of_def find_pos_def)

lemma array_loop_end: "array_loop (pre @ t) (length pre) (length pre) out = out"
  by (subst array_loop.simps) simp

lemma array_loop_items:
  "is \<noteq> [] \<Longrightarrow> json = pre @ render_items (map JStr is) @ '']'' @ post \<Longrightarrow>
   array_loop json (length pre + length (render_items (map JStr is))) (length pre) out =
     out @ read_items is"
proof (induction "is" arbitrary: pre out)
  case (Cons i "is")
  let ?e = "jsonEscape i" and ?d = "concat (map decoded i)"
  let ?pre2 = "pre @ DQUOTE # ?e @ [DQUOTE]"
  let ?out = "if ?d \<noteq> [] then out @ [?d] else out"
  let ?stop = "length pre + length (render_items (map JStr (i # is)))"
  let ?rest = "if is = [] then '']'' @ post else CHR '','' # render_items (map JStr is) @ '']'' @ post"
  have j: "json = pre @ DQUOTE # ?e @ DQUOTE # ?rest"
    using Cons.prems(2) unfolding render_items_JStr by simp
  have j2: "json = ?pre2 @ ?rest" using j by simp
  have fq: "find_char json DQUOTE (length pre) = Some (length pre)" unfolding j by (rule find_char_here)
  have sc: "scan_string False (drop (Suc (length pre)) json) = (?d, length ?e)"
    unfolding j by (simp add: scan_jsonEscape)
  have lt: "length pre < ?stop" by (simp add: render_items_JStr del: list.map)
  have step_: "array_loop json ?stop (length pre) out =
      (case find_first_not_of json (white @ '','') (length ?pre2) of None \<Rightarrow> ?out
       | Some nxt \<Rightarrow> if ?stop \<le> nxt then ?out
           else if json ! nxt = CHR '']'' then ?out else array_loop json ?stop nxt ?out)"
    using lt by (subst array_loop.simps) (simp add: fq sc Let_def del: list.map)
  have out: "?out @ read_items is = out @ read_items (i # is)" by (simp add: read_items_def)
  show ?case
  proof (cases "is")
    case Nil
    have "find_first_not_of json (white @ '','') (length ?pre2) = Some (length ?pre2)"
      unfolding j2 using Nil find_first_not_of_here [of "CHR '']''" "white @ '',''" ?pre2 post]
      by (simp add: white_def)
    moreover have "?stop = length ?pre2" using Nil by (simp add: render_items_JStr)
    ultimately show ?thesis using step_ Nil by (simp add: read_items_def)
  next
    case (Cons i2 is2)
    define r where "r = render_items (map JStr is) @ '']'' @ post"
    obtain r' where r': "r = DQUOTE # r'"
      unfolding r_def Cons render_items_JStr by simp
    have j3: "json = ?pre2 @ CHR '','' # DQUOTE # r'"
      using j2 Cons r' r_def by simp
    have n: "find_first_not_of json (white @ '','') (length ?pre2) = Some (Suc (length ?pre2))"
      unfolding j3 by (rule find_first_not_of_skip) (simp_all add: white_def)
    have e: "?stop = Suc (length ?pre2) + length (render_items (map JStr is))"
      using Cons by (simp add: render_items_JStr del: list.map)
    have lt2: "0 < length (render_items (map JStr is))" using Cons by (simp add: render_items_JStr del: list.map)
    have nth: "json ! Suc (length ?pre2) = DQUOTE"
      unfolding j3 by (simp add: nth_append)
    have "array_loop json ?stop (length pre) out = array_loop json ?stop (Suc (length ?pre2)) ?out"
      unfolding step_ n option.case nth using e lt2 by simp
    also have "\<dots> = ?out @ read_items is"
    proof -
      have "json = (?pre2 @ '','') @ render_items (map JStr is) @ '']'' @ post"
        using j3 r' r_def by simp
      moreover have "is \<noteq> []" using Cons by simp
      ultimately show ?thesis using Cons.IH [of "?pre2 @ '',''" ?out] unfolding e by simp
    qed
    finally show ?thesis using out by simp
  qed
qed simp

lemma starts_with_quoted:
  assumes "DQUOTE \<notin> set a" "DQUOTE \<notin> set k"
  shows "starts_with (a @ DQUOTE # t) (k @ [DQUOTE]) \<longleftrightarrow> a = k"
  using assms
proof (induction a arbitrary: k)
  case Nil
  then show ?case by (cases k) auto
next
  case (Cons c a)
  then show ?case by (cases k) auto
qed

section \<open>Reading metric labels\<close>

definition label_members :: "(string \<times> string) list \<Rightarrow> string" where
  "label_members kvs = render_members (map (\<lambda>(k, v). (k, JStr v)) kvs)"

definition plain_label :: "string \<times> string \<Rightarrow> bool" where
  "plain_label kv \<longleftrightarrow> fst kv \<noteq> [] \<and> list_all plain_char (fst kv)"

lemma label_members_Cons:
  "plain_label (k, v) \<Longrightarrow> label_members ((k, v) # kvs) = DQUOTE # k @ DQUOTE # CHR '':'' # DQUOTE # jsonEscape v @ DQUOTE #
     (if kvs = [] then [] else CHR '','' # label_members kvs)"
  by (simp add: label_members_def plain_label_def jsonEscape_plain)

lemma find_char_past:
  "c \<notin> set m \<Longrightarrow> find_char (pre @ m @ c # t) c (length pre) = Some (length pre + length m)"
proof -
  assume "c \<notin> set m"
  then have "find_idx (\<lambda>x. x = c) m = None" by (auto simp: find_idx_None)
  then have "find_idx (\<lambda>x. x = c) (m @ c # t) = Some (length m)" by (simp add: find_idx_append)
  then show ?thesis by (simp add: find_char_def find_pos_def)
qed

lemma plain_char_quote: "list_all plain_char k \<Longrightarrow> DQUOTE \<notin> set k"
  by (auto simp: list_all_iff plain_char_def)

lemma trim_empty_substr: "trim (substr i 0 s) = []"
  by (simp add: substr_def)

lemma map_loop_members:
  "kvs \<noteq> [] \<Longrightarrow> list_all plain_label kvs \<Longrightarrow> obj = pre @ label_members kvs @ CHR ''}'' # post \<Longrightarrow>
   map_loop obj (length pre) out = out @ map (\<lambda>(k, v). (k, concat (map decoded v))) kvs"
proof (induction kvs arbitrary: pre out)
  case (Cons kv kvs)
  obtain k v where kv: "kv = (k, v)" by (cases kv)
  let ?d = "concat (map decoded v)"
  let ?rest = "(if kvs = [] then [] else CHR '','' # label_members kvs) @ CHR ''}'' # post"
  from Cons.prems kv have pl: "plain_label (k, v)" by simp
  then have k: "k \<noteq> []" "DQUOTE \<notin> set k" by (simp_all add: plain_label_def plain_char_quote)
  have o0: "obj = pre @ DQUOTE # (k @ DQUOTE # CHR '':'' # DQUOTE # jsonEscape v @ DQUOTE # ?rest)"
    using Cons.prems(3) unfolding kv label_members_Cons [OF pl] by simp
  have q0: "find_char obj DQUOTE (length pre) = Some (length pre)"
    unfolding o0 by (rule find_char_here)
  let ?p1 = "pre @ [DQUOTE]"
  have o1: "obj = ?p1 @ k @ DQUOTE # (CHR '':'' # DQUOTE # jsonEscape v @ DQUOTE # ?rest)" using o0 by simp
  have q1: "find_char obj DQUOTE (length pre + 1) = Some (length pre + 1 + length k)"
    using find_char_past [OF k(2), of ?p1] o1 by simp
  let ?p2 = "?p1 @ k"
  have o2: "obj = ?p2 @ [DQUOTE] @ CHR '':'' # (DQUOTE # jsonEscape v @ DQUOTE # ?rest)" using o0 by simp
  have q2: "find_char obj (CHR '':'') (length pre + 1 + length k) = Some (length pre + length k + 2)"
    using find_char_past [of "CHR '':''" "[DQUOTE]" ?p2] o2 by simp
  let ?p3 = "?p2 @ [DQUOTE]"
  have o3: "obj = ?p3 @ '':'' @ DQUOTE # (jsonEscape v @ DQUOTE # ?rest)" using o0 by simp
  have q3: "find_char obj DQUOTE (length pre + length k + 2) = Some (length pre + length k + 3)"
    using find_char_past [of DQUOTE "'':''" ?p3] o3 by simp
  let ?p4 = "?p3 @ '':'' @ [DQUOTE]"
  have o4: "obj = ?p4 @ jsonEscape v @ DQUOTE # ?rest" using o0 by simp
  have sc: "scan_string False (drop (length pre + length k + 3 + 1) obj) = (?d, length (jsonEscape v))"
  proof -
    have l: "length pre + length k + 3 + 1 = length ?p4" by simp
    show ?thesis unfolding l o4 drop_front by (rule scan_render_str)
  qed
  have key: "substr (length pre + 1) (length pre + 1 + length k - length pre - 1) obj = k"
    unfolding o1 by (simp add: substr_def)
  let ?p5 = "?p4 @ jsonEscape v @ [DQUOTE]"
  have o5: "obj = ?p5 @ ?rest" using o0 by simp
  have len: "length pre + length k + 3 + 1 + length (jsonEscape v) + 1 = length ?p5" by simp
  have lt: "length pre < length obj" unfolding o0 by simp
  have step_: "map_loop obj (length pre) out =
      (case find_first_not_of obj ('' '' @ [TAB, LF, CR] @ '','') (length ?p5) of None \<Rightarrow> out @ [(k, ?d)]
       | Some nxt \<Rightarrow> if obj ! nxt = CHR ''}'' then out @ [(k, ?d)] else map_loop obj nxt (out @ [(k, ?d)]))"
  proof -
    have t: "trim (substr (length pre + length k + 2 + 1)
        (length pre + length k + 3 - (length pre + length k + 2) - 1) obj) = []"
      by (simp add: trim_empty_substr)
    show ?thesis
      by (subst map_loop.simps) (simp only: lt if_True q0 q1 q2 q3 option.case t simp_thms if_False Let_def
          key sc prod.case k len add.assoc [symmetric])
  qed
  show ?case
  proof (cases "kvs = []")
    case True
    have "find_first_not_of obj ('' '' @ [TAB, LF, CR] @ '','') (length ?p5) = Some (length ?p5)"
      unfolding o5 using True find_first_not_of_here [of "CHR ''}''" "'' '' @ [TAB, LF, CR] @ '',''" ?p5 post] by simp
    moreover have "obj ! length ?p5 = CHR ''}''" unfolding o5 using True by (simp add: nth_append)
    ultimately show ?thesis using True kv unfolding step_ by simp
  next
    case False
    then obtain k2 v2 kvs2 where kvs: "kvs = (k2, v2) # kvs2" by (cases kvs) auto
    then have pl2: "plain_label (k2, v2)" using Cons.prems by simp
    obtain r where r: "label_members kvs @ CHR ''}'' # post = DQUOTE # r"
      unfolding kvs label_members_Cons [OF pl2] by simp
    have o6: "obj = ?p5 @ CHR '','' # DQUOTE # r" using o5 False r by simp
    have n: "find_first_not_of obj ('' '' @ [TAB, LF, CR] @ '','') (length ?p5) = Some (Suc (length ?p5))"
      unfolding o6 by (rule find_first_not_of_skip) simp_all
    have c: "obj ! Suc (length ?p5) = DQUOTE"
    proof -
      have "obj = (?p5 @ '','') @ DQUOTE # r" using o6 by simp
      then show ?thesis by (metis nth_append_length length_append_singleton)
    qed
    have "map_loop obj (length pre) out = map_loop obj (length (?p5 @ '','')) (out @ [(k, ?d)])"
      unfolding step_ n option.case c by simp
    also have "\<dots> = (out @ [(k, ?d)]) @ map (\<lambda>(k, v). (k, concat (map decoded v))) kvs"
    proof (rule Cons.IH [OF False])
      show "list_all plain_label kvs" using Cons.prems by simp
      show "obj = (?p5 @ '','') @ label_members kvs @ CHR ''}'' # post" using o6 r by simp
    qed
    finally show ?thesis using kv by simp
  qed
qed simp

text \<open>The labels of a text whose first \<^verbatim>\<open>"metric_labels"\<close> key has an object of strings.\<close>

definition labels_written :: "string \<Rightarrow> (string \<times> string) list \<Rightarrow> bool" where
  "labels_written config kvs \<longleftrightarrow> list_all plain_label kvs \<and> (\<exists>pre post.
     config = pre @ quoted ''metric_labels'' @ '':{'' @ label_members kvs @ ''}'' @ post \<and>
     find_str config (quoted ''metric_labels'') 0 = Some (length pre))"

lemma metric_labels_read:
  assumes "labels_written config kvs"
  shows "extractMetricLabels config = Some (map (\<lambda>(k, v). (k, concat (map decoded v))) kvs)"
proof -
  obtain pre post where c: "config = pre @ quoted ''metric_labels'' @ '':{'' @ label_members kvs @ ''}'' @ post"
    "find_str config (quoted ''metric_labels'') 0 = Some (length pre)" and pl: "list_all plain_label kvs"
    using assms by (auto simp: labels_written_def)
  let ?q = "quoted ''metric_labels''" and ?m = "label_members kvs"
  let ?obj = "CHR ''{'' # ?m @ ''}''"
  have lt: "0 < length config" unfolding c(1) by simp
  have k: "find_char config (CHR '':'') (length pre + length ?q) = Some (length (pre @ ?q))"
    using find_char_here [of "pre @ ?q" "CHR '':''" "''{'' @ ?m @ ''}'' @ post"] unfolding c(1) by simp
  have b: "find_char config (CHR ''{'') (length (pre @ ?q)) = Some (length (pre @ ?q @ '':''))"
    using find_char_past [of "CHR ''{''" "'':''" "pre @ ?q" "?m @ ''}'' @ post"] unfolding c(1) by simp
  have w: "wf_members (map (\<lambda>(k, v). (k, JStr v)) kvs)" by (induction kvs) auto
  have e: "findJsonObjectEnd config (length (pre @ ?q @ '':'')) = Some (length (pre @ ?q @ '':'') + 1 + length ?m)"
    using object_end [OF w, of "pre @ ?q @ '':''" post] unfolding c(1) label_members_def by simp
  have s: "substr (length (pre @ ?q @ '':'')) (length (pre @ ?q @ '':'') + 1 + length ?m - length (pre @ ?q @ '':'') + 1) config = ?obj"
    unfolding c(1) by (simp add: substr_def)
  have t: "trim (substr (length (pre @ ?q) + 1) (length (pre @ ?q @ '':'') - length (pre @ ?q) - 1) config) = []"
    by (simp add: trim_empty_substr)
  have x: "extractJsonObjectSlice config ''metric_labels'' = Some ?obj"
    unfolding extractJsonObjectSlice_def
    by (subst slice_loop.simps) (simp only: lt if_True c(2) option.case k b t simp_thms if_False e s)
  show ?thesis
  proof (cases "kvs = []")
    case True
    then show ?thesis
      unfolding extractMetricLabels_def x option.case
      by (simp add: extractStringMapFromObject_def label_members_def map_loop.simps find_char_def find_pos_def)
  next
    case False
    have "map_loop ?obj 1 [] = [] @ map (\<lambda>(k, v). (k, concat (map decoded v))) kvs"
      using map_loop_members [OF False pl, of ?obj "''{''" "[]" "[]"] by simp
    then show ?thesis
      unfolding extractMetricLabels_def x extractStringMapFromObject_def option.case by simp
  qed
qed

section \<open>Reading string values\<close>

text \<open>The first \<^verbatim>\<open>"key"\<close> of the text has the string \<open>v\<close> as its value, with white space around the colon.\<close>

definition names :: "string \<Rightarrow> string \<Rightarrow> string \<Rightarrow> bool" where
  "names config key v \<longleftrightarrow> list_all plain_char v \<and> (\<exists>pre w1 w2 post.
     config = pre @ quoted key @ w1 @ '':'' @ w2 @ quoted v @ post \<and> blank w1 \<and> blank w2 \<and>
     find_str config (quoted key) 0 = Some (length pre))"

lemma blank_none: "blank w \<Longrightarrow> CHR '':'' \<notin> set w \<and> DQUOTE \<notin> set w"
proof -
  assume b: "blank w"
  have "CHR '':'' \<notin> set white \<and> DQUOTE \<notin> set white" by (simp add: white_def)
  with b show ?thesis unfolding blank_def list_all_iff by blast
qed

lemma plain_scan: "list_all plain_char v \<Longrightarrow> scan_string False (v @ DQUOTE # t) = (v, length v)"
  by (induction v) (auto simp: plain_char_def)

lemma names_value:
  assumes "names config key v"
  shows "extractJsonStringValue config key = v"
proof -
  obtain pre w1 w2 post where c: "config = pre @ quoted key @ w1 @ '':'' @ w2 @ quoted v @ post"
    "find_str config (quoted key) 0 = Some (length pre)" and w: "blank w1" "blank w2"
    and v: "list_all plain_char v"
    using assms unfolding names_def by (elim conjE exE) (rule that; assumption)
  have c1: "config = (pre @ quoted key) @ w1 @ CHR '':'' # (w2 @ quoted v @ post)" using c(1) by simp
  have k: "find_char config (CHR '':'') (length pre + length (quoted key)) = Some (length (pre @ quoted key @ w1))"
    using find_char_past [of "CHR '':''" w1 "pre @ quoted key"] blank_none [OF w(1)] unfolding c1 by simp
  have c2: "config = (pre @ quoted key @ w1) @ ('':'' @ w2) @ DQUOTE # (v @ DQUOTE # post)"
    using c(1) by (simp add: quoted_def)
  have q: "find_char config DQUOTE (length (pre @ quoted key @ w1)) = Some (length (pre @ quoted key @ w1 @ '':'' @ w2))"
    using find_char_past [of DQUOTE "'':'' @ w2" "pre @ quoted key @ w1"] blank_none [OF w(2)] unfolding c2 by simp
  have d: "drop (length (pre @ quoted key @ w1 @ '':'' @ w2) + 1) config = v @ DQUOTE # post"
    unfolding c2 by simp
  show ?thesis unfolding extractJsonStringValue_def c(2) option.case k q d by (simp add: plain_scan [OF v])
qed

section \<open>The claim on directive arrays\<close>

lemma directive_array_read:
  assumes doc: "doc = before @ quoted ''directives_map'' @ '':{'' @ quoted profile @ '':'' @
      render (JArr (map JStr rules)) @ after"
    and first: "find_str doc (quoted ''directives_map'') 0 = Some (length before)"
    and profile: "DQUOTE \<notin> set profile" "profile \<noteq> ''directives_map''" "profile \<noteq> '':{''"
  shows "extractDirectiveArray doc profile = read_items rules"
proof -
  let ?a = "before @ quoted ''directives_map'' @ '':{''"
  let ?r = "render (JArr (map JStr rules)) @ after"
  have d: "doc = ?a @ quoted profile @ '':'' @ ?r" using doc by simp
  have np: "\<not> starts_with (''directives_map'' @ DQUOTE # t) (profile @ [DQUOTE])" for t
    by (subst starts_with_quoted) (use profile in auto)
  have nq: "\<not> starts_with ('':{'' @ DQUOTE # t) (profile @ [DQUOTE])" for t
    by (subst starts_with_quoted) (use profile in auto)
  have "find_sub (quoted profile) (quoted ''directives_map'' @ '':{'' @ quoted profile @ '':'' @ ?r) = Some 18"
    using np nq starts_with_append [of "profile @ [DQUOTE]"] by (simp add: quoted_def)
  then have p: "find_str doc (quoted profile) (length before) = Some (length ?a)"
    unfolding doc by (simp add: find_str_def)
  have c: "find_char doc (CHR '':'') (length ?a + length (quoted profile)) = Some (length (?a @ quoted profile))"
    using find_char_here [of "?a @ quoted profile" "CHR '':''" ?r] d by simp
  let ?b = "?a @ quoted profile @ '':''"
  have db: "doc = ?b @ CHR ''['' # render_items (map JStr rules) @ '']'' @ after" using d by simp
  have v: "findDirectivesMapProfileValue doc profile = Some (length ?b)"
    unfolding findDirectivesMapProfileValue_def first p option.case c
    using find_first_not_of_here [of "CHR ''[''" white ?b] db by (simp add: white_def)
  have w: "wf_items (map JStr rules)" by (induction rules) auto
  from array_end [OF this, of ?b "after"]
  have e: "findJsonArrayEnd doc (length ?b) = Some (length ?b + 1 + length (render_items (map JStr rules)))"
    unfolding db by simp
  have n: "doc ! length ?b = CHR ''[''" unfolding db by (rule nth_append_length)
  show ?thesis
  proof (cases "rules = []")
    case True
    then show ?thesis unfolding extractDirectiveArray_def v option.case n e
      by (subst array_loop.simps) (simp add: read_items_def)
  next
    case False
    from array_loop_items [OF this, of doc "?b @ ''[''" "after" "[]"] db
    show ?thesis unfolding extractDirectiveArray_def v option.case n e by simp
  qed
qed

lemma read_items_readable:
  "(\<And>r. r \<in> set rules \<Longrightarrow> list_all readable r) \<Longrightarrow> read_items rules = filter (\<lambda>r. r \<noteq> []) rules"
proof (induction rules)
  case (Cons r rules)
  have "concat (map decoded r) = r" using Cons.prems [of r] by (simp add: decoded_readable list_all_iff)
  then show ?case using Cons by (simp add: read_items_def)
qed (simp add: read_items_def)



text \<open>A \<^verbatim>\<open>\u\<close> escape is read as the letter and its digits.\<close>

lemma unicode_escape_not_decoded:
  "extractJsonStringValue (''{'' @ quoted ''k'' @ '':'' @ quoted ([BSLASH] @ ''u0041'') @ ''}'') ''k'' = ''u0041''"
  by code_simp

end
