(* ===== verification/Directives.thy ===== *)
theory Directives
  imports Json_Scan
begin

text \<open>
  The directive list of \<^verbatim>\<open>src/src/waf_config.cc\<close>: base64, the bounded gunzip loop around
  zlib, splitting into lines, and \<^verbatim>\<open>loadDirectiveList\<close>.
\<close>

unbundle bit_operations_syntax

section \<open>Base64\<close>

text \<open>The decoding table \<^verbatim>\<open>kDec\<close>.\<close>

definition kDec :: "char \<Rightarrow> int" where
  "kDec c = (let b = int (byte c) in
     if 65 \<le> b \<and> b \<le> 90 then b - 65
     else if 97 \<le> b \<and> b \<le> 122 then b - 71
     else if 48 \<le> b \<and> b \<le> 57 then b + 4
     else if b = 43 then 62
     else if b = 47 then 63
     else - 1)"

text \<open>
  \<^verbatim>\<open>val\<close> is a 32-bit \<^verbatim>\<open>int\<close> that the loop never masks: it is kept as a word, so that the
  shift drops the high bits as the target does, and read with an arithmetic shift.
\<close>

definition low_byte :: "32 word \<Rightarrow> nat \<Rightarrow> char" where
  "low_byte val k = char_of (unat (signed_drop_bit k val AND 0xFF))"

fun base64_loop :: "string \<Rightarrow> 32 word \<Rightarrow> int \<Rightarrow> string \<Rightarrow> string + string" where
  "base64_loop [] val valb out = Inr out"
| "base64_loop (c # cs) val valb out =
     (if c = CHR ''='' \<or> is_space c then base64_loop cs val valb out
      else
        (let d = kDec c in
         if d < 0 then Inl ''invalid base64 in compressed directives''
         else
           (let val' = push_bit 6 val + word_of_int d; valb' = valb + 6 in
            if 0 \<le> valb' then base64_loop cs val' (valb' - 8) (out @ [low_byte val' (nat valb')])
            else base64_loop cs val' valb' out)))"

definition base64Decode :: "string \<Rightarrow> string + string" where
  "base64Decode inp = base64_loop inp 0 (- 8) []"

section \<open>Gunzip\<close>

text \<open>
  zlib is not part of the repository. A stream state is of an arbitrary type;
  \<open>zl_init\<close> is \<^verbatim>\<open>inflateInit2\<close> on the whole compressed input (\<open>None\<close> when it does not
  return \<^verbatim>\<open>Z_OK\<close>) and \<open>zl_inflate\<close> is \<^verbatim>\<open>inflate\<close> with the given room for output:
  return code, produced bytes, next stream state.
\<close>

record 'z zlib =
  zl_init :: "string \<Rightarrow> 'z option"
  zl_inflate :: "'z \<Rightarrow> nat \<Rightarrow> int \<times> string \<times> 'z"

definition Z_OK :: int where "Z_OK = 0"
definition Z_STREAM_END :: int where "Z_STREAM_END = 1"

definition kMaxInflatedDirectivesBytes :: nat where
  "kMaxInflatedDirectivesBytes = 32 * 1024 * 1024"

definition inflate_buffer :: nat where "inflate_buffer = 64 * 1024"

text \<open>The loop may not return: then its value is \<open>None\<close>.\<close>

partial_function (option) inflate_loop :: "'z zlib \<Rightarrow> 'z \<Rightarrow> string \<Rightarrow> (string + string) option" where
  "inflate_loop zl z plain =
     (case zl_inflate zl z inflate_buffer of (ret, produced, z') \<Rightarrow>
        if ret \<noteq> Z_OK \<and> ret \<noteq> Z_STREAM_END then
          Some (Inl (''gzip inflate failed (code '' @ int_to_string ret @ '')''))
        else if kMaxInflatedDirectivesBytes < length plain + length produced then
          Some (Inl ''inflated directives exceed max size'')
        else if ret \<noteq> Z_STREAM_END then inflate_loop zl z' (plain @ produced)
        else Some (Inr (plain @ produced)))"

definition gzipInflate :: "'z zlib \<Rightarrow> string \<Rightarrow> (string + string) option" where
  "gzipInflate zl compressed =
     (if compressed = [] then Some (Inl ''empty compressed directives'')
      else (case zl_init zl compressed of
              None \<Rightarrow> Some (Inl ''gzip inflateInit2 failed'')
            | Some z \<Rightarrow> inflate_loop zl z []))"

section \<open>Lines\<close>

function splitDirectiveLines :: "string \<Rightarrow> string list" where
  "splitDirectiveLines text =
     (if text = [] then []
      else (case find_idx (\<lambda>c. c = LF) text of
              None \<Rightarrow> (let line = trim text in if line \<noteq> [] then [line] else [])
            | Some nl \<Rightarrow>
                (let line = trim (take nl text);
                     rest = splitDirectiveLines (drop (nl + 1) text)
                 in if line \<noteq> [] \<and> \<not> starts_with line ''#'' then line # rest
                    else if line \<noteq> [] then line # rest
                    else rest)))"
  by pat_completeness auto
termination
  by (relation "measure length") (auto simp: find_idx_Some)

declare splitDirectiveLines.simps [simp del]

section \<open>The directive list\<close>

text \<open>What follows a successful gunzip.\<close>

definition directives_of_plain :: "string + string \<Rightarrow> string + string list" where
  "directives_of_plain r =
     (case r of Inl e \<Rightarrow> Inl e
      | Inr plain \<Rightarrow>
          (let directives = splitDirectiveLines plain
           in if directives = [] then Inl ''compressed directives inflated to empty list''
              else Inr directives))"

definition loadDirectiveList :: "'z zlib \<Rightarrow> string \<Rightarrow> string \<Rightarrow> (string + string list) option" where
  "loadDirectiveList zl json profile =
     (let encoding = extractJsonStringValue json ''directives_encoding''
      in if encoding = ''gzip+base64'' \<or> encoding = ''gzip'' then
           (let b64 = extractDirectiveMapString json profile
            in if b64 = [] then
                 Some (Inl (''directives_map profile not found or empty (compressed): '' @ profile))
               else if encoding = ''gzip+base64'' \<or> contains encoding ''base64'' then
                 (case base64Decode b64 of Inl e \<Rightarrow> Some (Inl e)
                  | Inr compressed \<Rightarrow> map_option directives_of_plain (gzipInflate zl compressed))
               else map_option directives_of_plain (gzipInflate zl b64))
         else
           (let directives = extractDirectiveArray json profile
            in if directives = [] then
                 Some (Inl (''directives_map profile not found or empty: '' @ profile))
               else Some (Inr directives)))"

section \<open>Base64 against its specification\<close>

text \<open>The encoder of RFC 4648, with padding, as the reference.\<close>

definition b64_char :: "nat \<Rightarrow> char" where
  "b64_char d = (if d < 26 then char_of (65 + d)
     else if d < 52 then char_of (71 + d)
     else if d < 62 then char_of (d - 4)
     else if d = 62 then CHR ''+'' else CHR ''/'')"

fun b64_encode :: "string \<Rightarrow> string" where
  "b64_encode [] = []"
| "b64_encode [a] =
     [b64_char (byte a div 4), b64_char (byte a mod 4 * 16), CHR ''='', CHR ''='']"
| "b64_encode [a, b] =
     [b64_char (byte a div 4), b64_char (byte a mod 4 * 16 + byte b div 16),
      b64_char (byte b mod 16 * 4), CHR ''='']"
| "b64_encode (a # b # c # cs) =
     [b64_char (byte a div 4), b64_char (byte a mod 4 * 16 + byte b div 16),
      b64_char (byte b mod 16 * 4 + byte c div 64), b64_char (byte c mod 64)] @ b64_encode cs"

lemma b64_char_props:
  assumes "d < 64"
  shows "kDec (b64_char d) = int d" and "b64_char d \<noteq> CHR ''=''" and "\<not> is_space (b64_char d)"
proof -
  have b: "byte (b64_char d) = (if d < 26 then 65 + d else if d < 52 then 71 + d
      else if d < 62 then d - 4 else if d = 62 then 43 else 47)"
    using assms by (simp add: b64_char_def)
  show "kDec (b64_char d) = int d"
    using assms unfolding kDec_def Let_def b by auto
  show "b64_char d \<noteq> CHR ''=''"
    using assms b by (auto dest: byte_eqD split: if_splits)
  show "\<not> is_space (b64_char d)"
    using assms b by (auto simp: is_space_def dest!: byte_eqD split: if_splits)
qed

text \<open>Reading eight bits at a small offset does not see the bits that were shifted out.\<close>

lemma low_byte_eq:
  assumes "k \<le> 24"
  shows "low_byte v k = char_of (unat v div 2 ^ k mod 256)"
proof -
  have "signed_drop_bit k v AND 0xFF = take_bit 8 (drop_bit k v)"
  proof (rule bit_word_eqI)
    fix n assume "n < LENGTH(32)"
    have m: "(0xFF :: 32 word) = mask 8" by (simp add: mask_eq_exp_minus_1)
    show "bit (signed_drop_bit k v AND 0xFF) n = bit (take_bit 8 (drop_bit k v)) n"
      unfolding m using assms
      by (auto simp: bit_and_iff bit_mask_iff bit_take_bit_iff bit_drop_bit_eq bit_signed_drop_bit_iff)
  qed
  moreover have v: "unat v < 2 ^ 32"
    using unsigned_less [of v] by simp
  ultimately have "unat (signed_drop_bit k v AND 0xFF) = unat (take_bit 8 (drop_bit k v))"
    by simp
  also have "\<dots> = unat v div 2 ^ k mod 256"
    using v
    by (simp only: unsigned_take_bit_eq unsigned_drop_bit_eq) (simp add: take_bit_eq_mod drop_bit_eq_div)
  finally show ?thesis by (simp add: low_byte_def)
qed

lemma unat_step:
  assumes "d < 64"
  shows "unat (push_bit 6 (v :: 32 word) + word_of_int (int d)) = (unat v * 64 + d) mod 2 ^ 32"
proof -
  have p: "push_bit 6 v = v * 64" by (simp add: push_bit_eq_mult)
  have d: "unat (word_of_nat d :: 32 word) = d"
    using assms by (simp add: unat_of_nat take_bit_eq_mod)
  have "unat (push_bit 6 v + word_of_int (int d)) = ((unat v * 64) mod 2 ^ 32 + d) mod 2 ^ 32"
    unfolding p by (simp add: unat_word_ariths d)
  then show ?thesis by (simp add: mod_simps)
qed

text \<open>
  Four characters of the alphabet in a row, from the state at a group boundary: three bytes
  come out and the loop is at a group boundary again, whatever the accumulator held.
\<close>

lemma base64_step:
  "d < 64 \<Longrightarrow> base64_loop (b64_char d # cs) v valb out =
     (let v' = push_bit 6 v + word_of_int (int d) in
      if 0 \<le> valb + 6 then base64_loop cs v' (valb - 2) (out @ [low_byte v' (nat (valb + 6))])
      else base64_loop cs v' (valb + 6) out)"
  using b64_char_props [of d] by (simp add: Let_def)

definition feed :: "32 word \<Rightarrow> nat \<Rightarrow> 32 word" where
  "feed v d = push_bit 6 v + word_of_int (int d)"

lemma base64_two:
  assumes "d0 < 64" "d1 < 64"
  shows "base64_loop (b64_char d0 # b64_char d1 # cs) v (- 8) out =
     base64_loop cs (feed (feed v d0) d1) (- 4) (out @ [low_byte (feed (feed v d0) d1) 4])"
  using assms by (simp add: base64_step feed_def Let_def del: base64_loop.simps)

lemma base64_third:
  assumes "d < 64"
  shows "base64_loop (b64_char d # cs) v (- 4) out =
     base64_loop cs (feed v d) (- 6) (out @ [low_byte (feed v d) 2])"
  using assms by (simp add: base64_step feed_def Let_def del: base64_loop.simps)

lemma base64_fourth:
  assumes "d < 64"
  shows "base64_loop (b64_char d # cs) v (- 6) out =
     base64_loop cs (feed v d) (- 8) (out @ [low_byte (feed v d) 0])"
  using assms by (simp add: base64_step feed_def Let_def del: base64_loop.simps)

lemma unat_feed: "d < 64 \<Longrightarrow> unat (feed v d) = (unat v * 64 + d) mod 2 ^ 32"
  unfolding feed_def by (rule unat_step)

lemma mod_div_256:
  assumes "k \<in> {0, 2, 4}"
  shows "(n mod 2 ^ 32) div 2 ^ k mod 256 = n div 2 ^ k mod (256 :: nat)"
proof -
  have "(n mod 2 ^ 32) div 2 ^ k = drop_bit k (take_bit 32 n)"
    by (simp only: take_bit_eq_mod drop_bit_eq_div)
  also have "\<dots> = n div 2 ^ k mod 2 ^ (32 - k)"
    by (simp only: drop_bit_take_bit) (simp only: take_bit_eq_mod drop_bit_eq_div)
  finally have "(n mod 2 ^ 32) div 2 ^ k = n div 2 ^ k mod 2 ^ (32 - k)" .
  moreover have "(256 :: nat) dvd 2 ^ (32 - k)" using assms by auto
  ultimately show ?thesis by (simp only: mod_mod_cancel)
qed

lemma low_byte_feed:
  assumes "d < 64" "k \<in> {0, 2, 4}"
  shows "low_byte (feed v d) k = char_of ((unat v * 64 + d) div 2 ^ k mod 256)"
proof -
  have "k \<le> 24" using assms(2) by auto
  then show ?thesis using assms by (simp only: low_byte_eq unat_feed mod_div_256)
qed

lemma byte_char_of: "n = byte c \<Longrightarrow> char_of n = c"
  by simp

lemma base64_pad: "base64_loop (CHR ''='' # cs) v valb out = base64_loop cs v valb out"
  by simp

lemma join_bits:
  assumes "x < p" "M mod m = q mod m" "m * r = 256" "r * p = (64 :: nat)"
  shows "(M * 64 + (y * p + x)) div p mod 256 = (q * r + y) mod 256"
proof -
  have "M * 64 + (y * p + x) = p * (M * r + y) + x"
    by (simp add: algebra_simps flip: assms(4))
  then have "(M * 64 + (y * p + x)) div p = M * r + y"
    using assms(1) by (simp only: div_mult_self2 div_less) simp
  moreover have "M * r mod 256 = q * r mod 256"
    using assms(2) by (simp add: mult_mod_left flip: assms(3))
  ultimately show ?thesis by (metis mod_add_left_eq)
qed

lemma byte_div [simp]: "byte c div 4 < 64" "byte c div 16 < 16" "byte c div 64 < 4"
  by (simp_all add: less_mult_imp_div_less)

lemma byte_join [simp]:
  "byte c div 4 * 4 + byte c mod 4 = byte c" "byte c div 16 * 16 + byte c mod 16 = byte c"
  "byte c div 64 * 64 + byte c mod 64 = byte c"
  by (simp_all only: div_mult_mod_eq)

lemma sextets [simp]:
  "x < 16 \<Longrightarrow> byte a mod 4 * 16 + x < 64" "x < 4 \<Longrightarrow> byte a mod 16 * 4 + x < 64"
  "byte a mod 4 * 16 < 64" "byte a mod 16 * 4 < 64"
proof -
  have m: "byte a mod 4 < 4" "byte a mod 16 < 16" by simp_all
  show "x < 16 \<Longrightarrow> byte a mod 4 * 16 + x < 64" using m by linarith
  show "x < 4 \<Longrightarrow> byte a mod 16 * 4 + x < 64" using m by linarith
  show "byte a mod 4 * 16 < 64" "byte a mod 16 * 4 < 64" using m by linarith+
qed

lemma feed_mod:
  assumes "d < 64" "m dvd 64"
  shows "unat (feed v d) mod m = d mod m"
proof -
  obtain k where k: "64 = m * k" using assms(2) by (rule dvdE)
  have "m dvd (2 ^ 32 :: nat)" using assms(2) by (rule dvd_trans) simp
  then have "unat (feed v d) mod m = (d + m * (k * unat v)) mod m"
    using assms(1) by (simp only: unat_feed mod_mod_cancel) (simp add: k ac_simps)
  then show ?thesis by simp
qed

lemma first_byte:
  assumes "x < 16"
  shows "low_byte (feed (feed v (byte a div 4)) (byte a mod 4 * 16 + x)) 4 = a"
proof -
  let ?u = "unat (feed v (byte a div 4))"
  have "?u mod 64 = byte a div 4 mod 64" by (rule feed_mod) simp_all
  from join_bits [where r = 4 and p = 16 and y = "byte a mod 4", OF assms this]
  have "(?u * 64 + (byte a mod 4 * 16 + x)) div 2 ^ 4 mod 256 = byte a" by simp
  then show ?thesis using assms by (simp add: low_byte_feed)
qed

lemma second_byte:
  assumes "x < 4" "unat v mod 16 = byte b div 16"
  shows "low_byte (feed v (byte b mod 16 * 4 + x)) 2 = b"
proof -
  have "unat v mod 16 = byte b div 16 mod 16" using assms(2) by simp
  from join_bits [where r = 16 and p = 4 and y = "byte b mod 16", OF assms(1) this]
  have "(unat v * 64 + (byte b mod 16 * 4 + x)) div 2 ^ 2 mod 256 = byte b" by simp
  then show ?thesis using assms(1) by (simp add: low_byte_feed)
qed

lemma third_byte:
  assumes "unat v mod 4 = byte c div 64"
  shows "low_byte (feed v (byte c mod 64)) 0 = c"
proof -
  have "unat v mod 4 = byte c div 64 mod 4" using assms by simp
  from join_bits [where r = 64 and p = 1 and y = "byte c mod 64" and x = 0, OF _ this]
  have "(unat v * 64 + byte c mod 64) mod 256 = byte c" by simp
  then show ?thesis by (simp add: low_byte_feed)
qed

lemma base64_decode_loop:
  "base64_loop (b64_encode bs) v (- 8) out = Inr (out @ bs)"
proof (induction bs arbitrary: v out rule: b64_encode.induct)
  case 1
  then show ?case by simp
next
  case (2 a)
  have "low_byte (feed (feed v (byte a div 4)) (byte a mod 4 * 16)) 4 = a"
    using first_byte [of 0] by simp
  then show ?case
    by (simp only: b64_encode.simps base64_two base64_pad byte_div sextets) simp
next
  case (3 a b)
  let ?v = "feed (feed v (byte a div 4)) (byte a mod 4 * 16 + byte b div 16)"
  have "unat ?v mod 16 = byte b div 16"
    by (simp add: feed_mod)
  then have "low_byte (feed ?v (byte b mod 16 * 4)) 2 = b"
    using second_byte [of 0 ?v b] by simp
  then show ?case
    by (simp only: b64_encode.simps base64_two base64_third base64_pad byte_div sextets first_byte) simp
next
  case (4 a b c cs)
  let ?v = "feed (feed v (byte a div 4)) (byte a mod 4 * 16 + byte b div 16)"
  let ?w = "feed ?v (byte b mod 16 * 4 + byte c div 64)"
  have 1: "unat ?v mod 16 = byte b div 16" "unat ?w mod 4 = byte c div 64"
    by (simp_all add: feed_mod)
  have 2: "low_byte ?w 2 = b" using 1(1) by (simp add: second_byte)
  have 3: "low_byte (feed ?w (byte c mod 64)) 0 = c" using 1(2) by (rule third_byte)
  have d: "byte c mod 64 < 64" by simp
  show ?case
    by (simp only: b64_encode.simps append.simps base64_two base64_third base64_fourth
        byte_div sextets d first_byte 2 3 4) simp
qed

lemma base64Decode_encode: "base64Decode (b64_encode bs) = Inr bs"
  by (simp add: base64Decode_def base64_decode_loop)

definition b64_legal :: "char \<Rightarrow> bool" where
  "b64_legal c \<longleftrightarrow> c = CHR ''='' \<or> is_space c \<or> 0 \<le> kDec c"

lemma base64_loop_Inl:
  "(\<exists>e. base64_loop s v vb out = Inl e) \<longleftrightarrow> (\<exists>c \<in> set s. \<not> b64_legal c)"
proof (induction s v vb out rule: base64_loop.induct)
  case (2 c cs v vb out)
  then show ?case by (auto simp: b64_legal_def Let_def)
qed simp

section \<open>Bounds and termination of gunzip\<close>

text \<open>
  What zlib's manual promises of \<^verbatim>\<open>inflate\<close>: it never writes past the room it is given,
  never gives input back, and returns \<^verbatim>\<open>Z_OK\<close> only when it consumed input or produced
  output. \<open>avail\<close> is the number of input bytes left.
\<close>

definition zlib_progress :: "'z zlib \<Rightarrow> ('z \<Rightarrow> nat) \<Rightarrow> bool" where
  "zlib_progress zl avail \<longleftrightarrow> (\<forall>z room ret produced z'. zl_inflate zl z room = (ret, produced, z') \<longrightarrow>
     length produced \<le> room \<and> avail z' \<le> avail z \<and>
     (ret = Z_OK \<longrightarrow> 0 < room \<longrightarrow> produced \<noteq> [] \<or> avail z' < avail z))"

lemma zlib_progressD:
  assumes "zlib_progress zl avail" "zl_inflate zl z room = (ret, produced, z')"
  shows "length produced \<le> room" "avail z' \<le> avail z"
    "ret = Z_OK \<Longrightarrow> 0 < room \<Longrightarrow> produced \<noteq> [] \<or> avail z' < avail z"
  using assms by (auto simp: zlib_progress_def)

lemma inflate_loop_bound:
  assumes "inflate_loop zl z plain = Some (Inr out)"
  shows "length out \<le> kMaxInflatedDirectivesBytes"
proof -
  have "\<forall>out. r = Inr out \<longrightarrow> length out \<le> kMaxInflatedDirectivesBytes"
    if ret: "inflate_loop zl z plain = Some r" for r
  proof (rule inflate_loop.raw_induct [where
        P = "\<lambda>zl z plain r. \<forall>out. r = Inr out \<longrightarrow> length out \<le> kMaxInflatedDirectivesBytes", OF _ ret])
    fix f :: "'a zlib \<Rightarrow> 'a \<Rightarrow> string \<Rightarrow> (string + string) option" and zl z plain r
    assume IH: "\<And>zl z plain r. f zl z plain = Some r \<Longrightarrow>
        \<forall>out. r = Inr out \<longrightarrow> length out \<le> kMaxInflatedDirectivesBytes"
      and eq: "(case zl_inflate zl z inflate_buffer of (ret, produced, z') \<Rightarrow>
        if ret \<noteq> Z_OK \<and> ret \<noteq> Z_STREAM_END then
          Some (Inl (''gzip inflate failed (code '' @ int_to_string ret @ '')''))
        else if kMaxInflatedDirectivesBytes < length plain + length produced then
          Some (Inl ''inflated directives exceed max size'')
        else if ret \<noteq> Z_STREAM_END then f zl z' (plain @ produced)
        else Some (Inr (plain @ produced))) = Some r"
    show "\<forall>out. r = Inr out \<longrightarrow> length out \<le> kMaxInflatedDirectivesBytes"
      using eq by (auto split: prod.splits if_splits dest: IH)
  qed
  with assms show ?thesis by blast
qed

lemma inflate_loop_returns:
  assumes "zlib_progress zl avail"
  shows "length plain \<le> kMaxInflatedDirectivesBytes \<Longrightarrow> \<exists>r. inflate_loop zl z plain = Some r"
proof (induction "avail z + (kMaxInflatedDirectivesBytes - length plain)" arbitrary: z plain rule: less_induct)
  case less
  obtain ret produced z' where i: "zl_inflate zl z inflate_buffer = (ret, produced, z')"
    by (cases "zl_inflate zl z inflate_buffer")
  show ?case
  proof (cases "ret = Z_OK \<and> length plain + length produced \<le> kMaxInflatedDirectivesBytes")
    case True
    then have n: "ret \<noteq> Z_STREAM_END" by (simp add: Z_OK_def Z_STREAM_END_def)
    have "produced \<noteq> [] \<or> avail z' < avail z"
      using zlib_progressD(3) [OF assms i] True by (simp add: inflate_buffer_def)
    moreover have "avail z' \<le> avail z" by (rule zlib_progressD(2) [OF assms i])
    ultimately have "avail z' + (kMaxInflatedDirectivesBytes - length (plain @ produced)) <
        avail z + (kMaxInflatedDirectivesBytes - length plain)"
      using True by (cases produced) auto
    with less.hyps True have "\<exists>r. inflate_loop zl z' (plain @ produced) = Some r" by simp
    with True n i show ?thesis by (simp add: inflate_loop.simps [of zl z plain])
  next
    case False
    with i show ?thesis by (auto simp: inflate_loop.simps [of zl z plain])
  qed
qed

lemma gzipInflate_bound:
  "gzipInflate zl c = Some (Inr out) \<Longrightarrow> length out \<le> kMaxInflatedDirectivesBytes"
  by (auto simp: gzipInflate_def dest: inflate_loop_bound split: if_splits option.splits)

lemma gzipInflate_returns:
  "zlib_progress zl avail \<Longrightarrow> \<exists>r. gzipInflate zl c = Some r"
  by (auto simp: gzipInflate_def split: option.splits intro: inflate_loop_returns)

lemma loadDirectiveList_returns:
  assumes "zlib_progress zl avail"
  shows "\<exists>r. loadDirectiveList zl json profile = Some r"
proof -
  have "\<exists>r. map_option directives_of_plain (gzipInflate zl c) = Some r" for c
    using gzipInflate_returns [OF assms, of c] by auto
  then show ?thesis by (auto simp: loadDirectiveList_def Let_def split: sum.splits)
qed

section \<open>Lines against their specification\<close>

fun split_lines :: "string \<Rightarrow> string list" where
  "split_lines [] = [[]]"
| "split_lines (c # cs) =
     (if c = LF then [] # split_lines cs
      else (case split_lines cs of [] \<Rightarrow> [[c]] | l # ls \<Rightarrow> (c # l) # ls))"

lemma split_lines_find:
  "split_lines s = (case find_idx (\<lambda>c. c = LF) s of None \<Rightarrow> [s]
     | Some k \<Rightarrow> take k s # split_lines (drop (k + 1) s))"
  by (induction s) (auto split: option.splits)

lemma splitDirectiveLines_spec:
  "splitDirectiveLines s = filter (\<lambda>l. l \<noteq> []) (map trim (split_lines s))"
proof (induction s rule: splitDirectiveLines.induct)
  case (1 s)
  show ?case
  proof (cases "s = [] \<or> find_idx (\<lambda>c. c = LF) s = None")
    case True
    then show ?thesis
      by (subst splitDirectiveLines.simps, subst split_lines_find) (auto simp: Let_def)
  next
    case False
    then obtain k where k: "find_idx (\<lambda>c. c = LF) s = Some k" and s: "s \<noteq> []" by auto
    from "1.IH" [OF s k refl] k s show ?thesis
      by (subst splitDirectiveLines.simps, subst split_lines_find) (auto simp: Let_def)
  qed
qed

lemma split_lines_no_LF: "l \<in> set (split_lines s) \<Longrightarrow> LF \<notin> set l"
  by (induction s arbitrary: l) (auto split: if_splits list.splits)

lemma split_lines_single: "LF \<notin> set s \<Longrightarrow> split_lines s = [s]"
  by (induction s) auto

definition physical_line :: "string \<Rightarrow> bool" where
  "physical_line l \<longleftrightarrow> l \<noteq> [] \<and> trim l = l \<and> LF \<notin> set l"

lemma splitDirectiveLines_physical: "l \<in> set (splitDirectiveLines s) \<Longrightarrow> physical_line l"
  using set_trim split_lines_no_LF
  by (fastforce simp: splitDirectiveLines_spec physical_line_def)

lemma splitDirectiveLines_single: "physical_line l \<Longrightarrow> splitDirectiveLines l = [l]"
  by (simp add: physical_line_def splitDirectiveLines_spec split_lines_single)

lemma splitDirectiveLines_idem:
  "concat (map splitDirectiveLines (splitDirectiveLines s)) = splitDirectiveLines s"
proof -
  have "concat (map splitDirectiveLines ls) = ls" if "\<forall>l \<in> set ls. physical_line l" for ls
    using that by (induction ls) (auto simp: splitDirectiveLines_single)
  then show ?thesis using splitDirectiveLines_physical by blast
qed

section \<open>Properties\<close>

lemma base64_loop_filter:
  "base64_loop s v vb out = base64_loop (filter (\<lambda>c. c \<noteq> CHR ''='' \<and> \<not> is_space c) s) v vb out"
  by (induction s v vb out rule: base64_loop.induct) (auto simp: Let_def)

text \<open>
  C29: decoding inverts the standard encoding on every byte string,
  and it does so however the text is wrapped or padded: white space and padding characters do
  not matter.
\<close>

theorem base64Decode_roundtrip:
  assumes "filter (\<lambda>c. c \<noteq> CHR ''='' \<and> \<not> is_space c) inp =
    filter (\<lambda>c. c \<noteq> CHR ''='' \<and> \<not> is_space c) (b64_encode bs)"
  shows "base64Decode inp = Inr bs"
  using base64Decode_encode [of bs] base64_loop_filter [of inp] base64_loop_filter [of "b64_encode bs"]
  unfolding base64Decode_def assms by simp

lemma base64Decode_roundtrip_witness: "base64Decode ''a3Vi ZQ'' = Inr ''kube''"
  by (rule base64Decode_roundtrip) code_simp

text \<open>
  Decoding fails exactly when a character is neither of the
  alphabet nor padding nor white space, and then with the one error text.
\<close>

theorem base64Decode_rejects:
  "base64Decode inp = Inl ''invalid base64 in compressed directives'' \<longleftrightarrow>
     (\<exists>c. c \<in> set inp \<and> \<not> b64_legal c)"
proof -
  have "base64_loop s v vb out = Inl e \<Longrightarrow> e = ''invalid base64 in compressed directives''" for s v vb out e
    by (induction s v vb out rule: base64_loop.induct) (auto simp: Let_def split: if_splits)
  then show ?thesis
    using base64_loop_Inl [of inp 0 "- 8" "[]"] unfolding base64Decode_def by blast
qed

text \<open>
  Splitting gives the non-empty trimmed lines of the text in
  order, and splitting each of them again changes nothing.
\<close>

theorem splitDirectiveLines_lines:
  "splitDirectiveLines s = filter (\<lambda>l. l \<noteq> []) (map trim (split_lines s)) \<and>
   concat (map splitDirectiveLines (splitDirectiveLines s)) = splitDirectiveLines s"
  using splitDirectiveLines_spec splitDirectiveLines_idem by simp

text \<open>
  A decompressor for witnesses: the input is its own output, handed out in pieces of the room
  given.
\<close>

definition stored_zlib :: "string zlib" where
  "stored_zlib = \<lparr>zl_init = Some,
     zl_inflate = (\<lambda>z room. (if length z \<le> room then Z_STREAM_END else Z_OK, take room z, drop room z))\<rparr>"

lemma stored_progress: "zlib_progress stored_zlib length"
  by (auto simp: zlib_progress_def stored_zlib_def Z_OK_def Z_STREAM_END_def split: if_splits)

lemma stored_gunzip: "gzipInflate stored_zlib ''SecRuleEngine On'' = Some (Inr ''SecRuleEngine On'')"
  by (simp add: gzipInflate_def inflate_loop.simps stored_zlib_def inflate_buffer_def Z_OK_def
      Z_STREAM_END_def kMaxInflatedDirectivesBytes_def)

text \<open>
  C35: a decompressed directive list is at most 32 MiB, whatever the
  compressed input and however the decompressor behaves.
\<close>

theorem gzipInflate_bounded:
  "gzipInflate zl compressed = Some (Inr plain) \<Longrightarrow> length plain \<le> 32 * 1024 * 1024"
  using gzipInflate_bound [of zl compressed plain] by (simp add: kMaxInflatedDirectivesBytes_def)

lemma gzipInflate_bounded_witness: "length ''SecRuleEngine On'' \<le> 32 * 1024 * (1024 :: nat)"
  using gzipInflate_bounded [OF stored_gunzip] .

end
