(* ===== verification/Rule_Load.thy ===== *)
theory Rule_Load
  imports Directives
begin

text \<open>
  Loading rules (\<^verbatim>\<open>src/src/waf_config.cc\<close>): the embedded catalog, virtual includes, the
  batching of directive lines into load chunks (\<^verbatim>\<open>applyJsonConfig\<close>) and the expansion into
  one text (\<^verbatim>\<open>expandJsonConfig\<close>).
\<close>

section \<open>The rules catalog\<close>

text \<open>
  The catalog is generated by \<^verbatim>\<open>src/build/scripts/generate_rules_catalog.py\<close>: an array of
  assets in a fixed order and the catalog mode. A data pointer may be null (\<open>None\<close>);
  \<^verbatim>\<open>size\<close> is the length of the data.
\<close>

record asset =
  asset_path :: string
  asset_data :: "string option"

record catalog =
  catalog_mode :: "string option"
  catalog_assets :: "asset list"

definition lookup :: "catalog \<Rightarrow> string \<Rightarrow> asset option" where
  "lookup cat path = find (\<lambda>a. asset_path a = path) (catalog_assets cat)"

definition owasp_assets :: "catalog \<Rightarrow> asset list" where
  "owasp_assets cat = filter (\<lambda>a. starts_with (asset_path a) ''@owasp_crs/'') (catalog_assets cat)"

text \<open>\<^verbatim>\<open>foreach_owasp_crs\<close>: the callback runs on each asset until it returns false.\<close>

fun foreach :: "(asset \<Rightarrow> 's \<Rightarrow> bool \<times> 's) \<Rightarrow> asset list \<Rightarrow> 's \<Rightarrow> 's" where
  "foreach fn [] s = s"
| "foreach fn (a # as) s = (case fn a s of (go, s') \<Rightarrow> if go then foreach fn as s' else s')"

definition appended_data :: "asset \<Rightarrow> string" where
  "appended_data a = (case asset_data a of None \<Rightarrow> [] | Some d \<Rightarrow> d)"

definition text_of_lines :: "string list \<Rightarrow> string" where
  "text_of_lines ls = concat (map (\<lambda>l. l @ [LF]) ls)"

definition kKubeWafDefaultsConf :: string where
  "kKubeWafDefaultsConf = text_of_lines
     [''# kubeWAF production baseline (virtual path: Include @kubewaf-defaults)'',
      ''SecTmpDir /modsecurity-proxy-wasm-rules'',
      ''SecDataDir /modsecurity-proxy-wasm-rules'',
      ''SecRequestBodyAccess On'',
      ''SecRequestBodyLimit 13107200'',
      ''SecRequestBodyLimitAction ProcessPartial'',
      ''SecRequestBodyNoFilesLimit 131072'',
      ''SecResponseBodyAccess On'',
      ''SecResponseBodyMimeType text/plain text/html text/xml application/json'',
      ''SecResponseBodyLimit 524288'',
      ''SecResponseBodyLimitAction ProcessPartial'',
      ''SecAuditEngine Off'']"

section \<open>Loading chunks\<close>

text \<open>
  A loader gets a label, the data, the user state and the error string, and returns whether it
  succeeded with the new user state and error string. The load state joins the arguments that
  the C++ functions pass by reference with the local variables of \<^verbatim>\<open>applyJsonConfig\<close>.
\<close>

type_synonym 'u chunk_load = "string \<Rightarrow> string \<Rightarrow> 'u \<Rightarrow> string \<Rightarrow> bool \<times> 'u \<times> string"

record 'u load_state =
  ls_seen :: "string set"
  ls_user :: 'u
  ls_error :: string
  inline_batch :: string
  pending_chain :: bool

definition loadChunk :: "'u chunk_load option \<Rightarrow> string \<Rightarrow> string option \<Rightarrow> 'u load_state \<Rightarrow>
    bool \<times> 'u load_state" where
  "loadChunk loader label data s =
     (case loader of None \<Rightarrow> (True, s)
      | Some load \<Rightarrow>
        (case data of None \<Rightarrow> (True, s)
         | Some d \<Rightarrow>
           (if d = [] then (True, s)
            else (case load label d (ls_user s) (ls_error s) of
                    (ok, u, e) \<Rightarrow> (ok, s\<lparr>ls_user := u, ls_error := e\<rparr>)))))"

definition loadAsset :: "'u chunk_load option \<Rightarrow> asset \<Rightarrow> 'u load_state \<Rightarrow> bool \<times> 'u load_state" where
  "loadAsset loader asset s =
     (if asset_path asset \<in> ls_seen s then (True, s)
      else loadChunk loader (asset_path asset) (asset_data asset)
             (s\<lparr>ls_seen := insert (asset_path asset) (ls_seen s)\<rparr>))"

definition loadKubeWafDefaults :: "catalog \<Rightarrow> 'u chunk_load option \<Rightarrow> 'u load_state \<Rightarrow>
    bool \<times> 'u load_state" where
  "loadKubeWafDefaults cat loader s =
     (if ''@kubewaf-defaults'' \<in> ls_seen s then (True, s)
      else (let s' = s\<lparr>ls_seen := insert ''@kubewaf-defaults'' (ls_seen s)\<rparr>
            in case lookup cat ''@kubewaf-defaults'' of
                 Some asset \<Rightarrow> loadChunk loader (asset_path asset) (asset_data asset) s'
               | None \<Rightarrow> loadChunk loader ''@kubewaf-defaults'' (Some kKubeWafDefaultsConf) s'))"

definition loadOwaspCrsGlob :: "'u chunk_load option \<Rightarrow> asset \<Rightarrow> 'u load_state \<Rightarrow>
    bool \<times> 'u load_state" where
  "loadOwaspCrsGlob loader asset s =
     (if asset_path asset = ''@owasp_crs/_all.conf'' then (True, s) else loadAsset loader asset s)"

definition pathACatalogHint :: "catalog \<Rightarrow> string \<Rightarrow> string" where
  "pathACatalogHint cat target =
     ''virtual include '' @ target @ '' not in catalog (catalog_mode='' @
     (case catalog_mode cat of None \<Rightarrow> ''unknown'' | Some m \<Rightarrow> m) @
     ''). Path B builds omit CRS rule confs; supply rules as structured SecRule CRs '' @
     ''(crsEnable:false) or inline SecLang in directives_map.''"

definition resolveIncludeLoad :: "catalog \<Rightarrow> 'u chunk_load option \<Rightarrow> string \<Rightarrow> 'u load_state \<Rightarrow>
    bool \<times> 'u load_state" where
  "resolveIncludeLoad cat loader target s =
     (if target = ''@kubewaf-defaults'' then loadKubeWafDefaults cat loader s
      else if target = ''@demo-conf'' \<or> target = ''@ftw-conf'' then
        (case lookup cat target of
           None \<Rightarrow> (False, s\<lparr>ls_error := ''unknown virtual include: '' @ target\<rparr>)
         | Some asset \<Rightarrow> loadAsset loader asset s)
      else if target = ''@crs-setup-conf'' then
        (case lookup cat target of
           None \<Rightarrow> (False, s\<lparr>ls_error := pathACatalogHint cat target\<rparr>)
         | Some asset \<Rightarrow> loadAsset loader asset s)
      else if target = ''@owasp_crs/*.conf'' then
        (if owasp_assets cat = [] then (False, s\<lparr>ls_error := pathACatalogHint cat target\<rparr>)
         else (let s' = foreach (loadOwaspCrsGlob loader) (owasp_assets cat) s
               in (ls_error s' = [], s')))
      else if starts_with target ''@owasp_crs/'' then
        (case lookup cat target of
           None \<Rightarrow> (False, s\<lparr>ls_error := pathACatalogHint cat target\<rparr>)
         | Some asset \<Rightarrow> loadAsset loader asset s)
      else (False, s\<lparr>ls_error := ''unsupported Include target: '' @ target\<rparr>))"

section \<open>Batching directive lines\<close>

definition kMaxInlineChunkBytes :: nat where "kMaxInlineChunkBytes = 4096"

definition flushInline :: "'u chunk_load option \<Rightarrow> 'u load_state \<Rightarrow> bool \<times> 'u load_state" where
  "flushInline loader s =
     (if inline_batch s = [] then (True, s)
      else and_then (loadChunk loader ''inline-directives'' (Some (inline_batch s)) s)
             (\<lambda>s'. (True, s'\<lparr>inline_batch := []\<rparr>)))"

definition is_file_phrase_op :: "string \<Rightarrow> bool" where
  "is_file_phrase_op line \<longleftrightarrow> contains line ''@pmFromFile'' \<or> contains line ''@ipMatchFromFile''"

definition line_requests_chain :: "string \<Rightarrow> bool" where
  "line_requests_chain line \<longleftrightarrow>
     contains line ('',chain'' @ [DQUOTE]) \<or> contains line '',chain,'' \<or>
     contains line (DQUOTE # ''chain'' @ [DQUOTE]) \<or> contains line ('',chain'' @ [LF]) \<or>
     (6 \<le> length line \<and> substr (length line - 6) 6 line = '',chain'')"

definition append_line :: "string \<Rightarrow> 'u load_state \<Rightarrow> 'u load_state" where
  "append_line line s = s\<lparr>inline_batch := inline_batch s @ line @ [LF]\<rparr>"

text \<open>
  One iteration of the loop over the lines. The result is false where the C++ function
  returns false.
\<close>

definition apply_line :: "catalog \<Rightarrow> 'u chunk_load option \<Rightarrow> string \<Rightarrow> 'u load_state \<Rightarrow>
    bool \<times> 'u load_state" where
  "apply_line cat loader line_raw s =
     (let line = trim line_raw in
      if line = [] \<or> starts_with line ''#'' then (True, s)
      else if starts_with line ''Include '' then
        (let s1 = (if pending_chain s then s\<lparr>pending_chain := False\<rparr> else s)
         in and_then (flushInline loader s1) (resolveIncludeLoad cat loader (trim (drop 8 line))))
      else
        (let phrase_file = is_file_phrase_op line;
             is_chain_parent = \<not> pending_chain s \<and> line_requests_chain line
         in if phrase_file then
              and_then (if pending_chain s then (True, s) else flushInline loader s)
                (\<lambda>s1. let s2 = (append_line line s1)\<lparr>pending_chain := line_requests_chain line\<rparr>
                      in if \<not> pending_chain s2 then flushInline loader s2 else (True, s2))
            else
              and_then (if is_chain_parent then flushInline loader s
                     else if inline_batch s \<noteq> [] \<and> \<not> pending_chain s \<and>
                       kMaxInlineChunkBytes < length (inline_batch s) + length line + 1
                     then flushInline loader s
                     else (True, s))
                (\<lambda>s1. let was_pending = pending_chain s1 \<or> is_chain_parent;
                           s2 = (append_line line s1)\<lparr>pending_chain := line_requests_chain line\<rparr>
                       in if was_pending \<and> \<not> pending_chain s2 then flushInline loader s2
                          else if \<not> pending_chain s2 \<and> kMaxInlineChunkBytes \<le> length (inline_batch s2)
                          then flushInline loader s2
                          else (True, s2))))"

fun apply_lines :: "catalog \<Rightarrow> 'u chunk_load option \<Rightarrow> string list \<Rightarrow> 'u load_state \<Rightarrow>
    bool \<times> 'u load_state" where
  "apply_lines cat loader [] s = flushInline loader s"
| "apply_lines cat loader (l # ls) s =
     and_then (apply_line cat loader l s) (apply_lines cat loader ls)"

definition load_start :: "'u \<Rightarrow> string \<Rightarrow> 'u load_state" where
  "load_start user error =
     \<lparr>ls_seen = {}, ls_user = user, ls_error = error, inline_batch = [], pending_chain = False\<rparr>"

definition default_profile :: "string \<Rightarrow> string" where
  "default_profile json =
     (let profile = extractJsonStringValue json ''default_directives''
      in if profile = [] then ''default'' else profile)"

text \<open>The load after the directive list was found.\<close>

definition apply_directives :: "catalog \<Rightarrow> 'u chunk_load option \<Rightarrow> 'u \<Rightarrow> string \<Rightarrow>
    string + string list \<Rightarrow> bool \<times> 'u \<times> string" where
  "apply_directives cat loader user error r =
     (case r of Inl e \<Rightarrow> (False, user, e)
      | Inr directives \<Rightarrow>
          (case apply_lines cat loader (concat (map splitDirectiveLines directives))
                  (load_start user error) of
             (ok, s) \<Rightarrow> (ok, ls_user s, ls_error s)))"

definition applyJsonConfig :: "'z zlib \<Rightarrow> catalog \<Rightarrow> 'u chunk_load option \<Rightarrow> string \<Rightarrow> 'u \<Rightarrow> string \<Rightarrow>
    (bool \<times> 'u \<times> string) option" where
  "applyJsonConfig zl cat loader json user error =
     map_option (apply_directives cat loader user error)
       (loadDirectiveList zl json (default_profile json))"

definition load_plain :: "'u chunk_load option \<Rightarrow> string \<Rightarrow> 'u \<Rightarrow> bool \<times> 'u \<times> string" where
  "load_plain loader text user =
     (case loadChunk loader ''plain-config'' (Some text) (load_start user []) of
        (ok, s) \<Rightarrow> (ok, ls_user s, ls_error s))"

definition applyWafConfiguration :: "'z zlib \<Rightarrow> catalog \<Rightarrow> 'u chunk_load option \<Rightarrow> string \<Rightarrow> 'u \<Rightarrow>
    (bool \<times> 'u \<times> string) option" where
  "applyWafConfiguration zl cat loader config user =
     (let trimmed = trim config
      in if trimmed = [] then Some (False, user, ''empty configuration'')
         else if \<not> looksLikeJson trimmed then Some (load_plain loader trimmed user)
         else applyJsonConfig zl cat loader trimmed user [])"

section \<open>Expanding into one text\<close>

text \<open>State: the included paths and the output. A failure is the error text.\<close>

record expand_state =
  ex_seen :: "string set"
  ex_out :: string
  ex_error :: string

definition append_asset :: "string \<Rightarrow> asset \<Rightarrow> expand_state \<Rightarrow> expand_state" where
  "append_asset key asset s =
     (if key \<in> ex_seen s then s
      else s\<lparr>ex_seen := insert key (ex_seen s), ex_out := ex_out s @ appended_data asset @ [LF]\<rparr>)"

definition appendKubeWafDefaults :: "catalog \<Rightarrow> expand_state \<Rightarrow> bool \<times> expand_state" where
  "appendKubeWafDefaults cat s =
     (if ''@kubewaf-defaults'' \<in> ex_seen s then (True, s)
      else (let s' = s\<lparr>ex_seen := insert ''@kubewaf-defaults'' (ex_seen s)\<rparr>
            in case lookup cat ''@kubewaf-defaults'' of
                 Some asset \<Rightarrow> (True, s'\<lparr>ex_out := ex_out s' @ appended_data asset @ [LF]\<rparr>)
               | None \<Rightarrow>
                   (let out = ex_out s' @ kKubeWafDefaultsConf
                    in (True, s'\<lparr>ex_out := (if out = [] \<or> last out \<noteq> LF then out @ [LF] else out)\<rparr>))))"

definition appendOwaspCrsGlobExpand :: "asset \<Rightarrow> expand_state \<Rightarrow> bool \<times> expand_state" where
  "appendOwaspCrsGlobExpand asset s =
     (if asset_path asset = ''@owasp_crs/_all.conf'' then (True, s)
      else (True, append_asset (asset_path asset) asset s))"

definition resolveIncludeExpand :: "catalog \<Rightarrow> string \<Rightarrow> expand_state \<Rightarrow> bool \<times> expand_state" where
  "resolveIncludeExpand cat target s =
     (if target = ''@kubewaf-defaults'' then appendKubeWafDefaults cat s
      else if target = ''@demo-conf'' \<or> target = ''@ftw-conf'' then
        (case lookup cat target of
           None \<Rightarrow> (False, s\<lparr>ex_error := ''unknown virtual include: '' @ target\<rparr>)
         | Some asset \<Rightarrow> (True, append_asset target asset s))
      else if target = ''@crs-setup-conf'' then
        (case lookup cat target of
           None \<Rightarrow> (False, s\<lparr>ex_error := pathACatalogHint cat target\<rparr>)
         | Some asset \<Rightarrow> (True, append_asset target asset s))
      else if target = ''@owasp_crs/*.conf'' then
        (if owasp_assets cat = [] then (False, s\<lparr>ex_error := pathACatalogHint cat target\<rparr>)
         else (let s' = foreach appendOwaspCrsGlobExpand (owasp_assets cat) s
               in (ex_error s' = [], s')))
      else if starts_with target ''@owasp_crs/'' then
        (case lookup cat target of
           None \<Rightarrow> (False, s\<lparr>ex_error := pathACatalogHint cat target\<rparr>)
         | Some asset \<Rightarrow> (True, append_asset target asset s))
      else (False, s\<lparr>ex_error := ''unsupported Include target: '' @ target\<rparr>))"

fun expand_lines :: "catalog \<Rightarrow> string list \<Rightarrow> expand_state \<Rightarrow> bool \<times> expand_state" where
  "expand_lines cat [] s = (ex_out s \<noteq> [], s)"
| "expand_lines cat (raw # ls) s =
     (let line = trim raw in
      if line = [] \<or> starts_with line ''#'' then expand_lines cat ls s
      else if starts_with line ''Include '' then
        and_then (resolveIncludeExpand cat (trim (drop 8 line)) s) (expand_lines cat ls)
      else expand_lines cat ls (s\<lparr>ex_out := ex_out s @ line @ [LF]\<rparr>))"

definition expand_directives :: "catalog \<Rightarrow> string \<Rightarrow> string + string list \<Rightarrow>
    bool \<times> string \<times> string" where
  "expand_directives cat rules_out r =
     (case r of Inl e \<Rightarrow> (False, rules_out, e)
      | Inr directives \<Rightarrow>
          (case expand_lines cat directives \<lparr>ex_seen = {}, ex_out = [], ex_error = []\<rparr> of
             (ok, s) \<Rightarrow> (ok, ex_out s, ex_error s)))"

text \<open>
  Result: success, the rules text (the caller's text where the output was not reached) and the
  error text.
\<close>

definition expandJsonConfig :: "'z zlib \<Rightarrow> catalog \<Rightarrow> string \<Rightarrow> string \<Rightarrow>
    (bool \<times> string \<times> string) option" where
  "expandJsonConfig zl cat json rules_out =
     map_option (expand_directives cat rules_out) (loadDirectiveList zl json (default_profile json))"

definition expandWafConfiguration :: "'z zlib \<Rightarrow> catalog \<Rightarrow> string \<Rightarrow> string \<Rightarrow>
    (bool \<times> string \<times> string) option" where
  "expandWafConfiguration zl cat config rules_out =
     (let trimmed = trim config
      in if trimmed = [] then Some (False, rules_out, ''empty configuration'')
         else if \<not> looksLikeJson trimmed then Some (True, trimmed, [])
         else expandJsonConfig zl cat trimmed rules_out)"

section \<open>Two limits of the recognisers\<close>

text \<open>A chain action that opens the action list is not recognised.\<close>

lemma leading_chain_not_seen:
  "\<not> line_requests_chain (''SecRule ARGS '' @ quoted ''@rx x'' @ '' '' @ quoted ''chain,id:1,deny'')"
  by code_simp

text \<open>Data assets cannot be included.\<close>

lemma crs_data_include_rejected:
  "resolveIncludeLoad cat loader (''@crs-data/'' @ name) s =
     (False, s\<lparr>ls_error := ''unsupported Include target: '' @ ''@crs-data/'' @ name\<rparr>)"
  by (simp add: resolveIncludeLoad_def)

end
