(* ===== verification/Rule_Batches.thy ===== *)
theory Rule_Batches
  imports Rule_Load
begin

text \<open>
  What the batching of \<^verbatim>\<open>applyJsonConfig\<close> guarantees. The chunks are observed with a
  loader that accepts everything and records the calls it gets.
\<close>

section \<open>Observing the chunks\<close>

definition recorder :: "(string \<times> string) list chunk_load" where
  "recorder label data calls error = (True, calls @ [(label, data)], error)"

definition accepted_lines :: "string list \<Rightarrow> string list" where
  "accepted_lines ls = filter (\<lambda>l. l \<noteq> [] \<and> \<not> starts_with l ''#'') (map trim ls)"

definition is_include :: "string \<Rightarrow> bool" where
  "is_include line \<longleftrightarrow> starts_with line ''Include ''"

lemma text_of_lines_simps [simp]:
  "text_of_lines [] = []" "text_of_lines (l # ls) = l @ LF # text_of_lines ls"
  "text_of_lines (ls @ ms) = text_of_lines ls @ text_of_lines ms"
  by (simp_all add: text_of_lines_def)

lemma text_of_lines_Nil_iff [simp]: "text_of_lines ls = [] \<longleftrightarrow> ls = []"
  by (cases ls) auto

lemma flush_recorder:
  "flushInline (Some recorder) s =
     (True, if inline_batch s = [] then s
            else s\<lparr>ls_user := ls_user s @ [(''inline-directives'', inline_batch s)], inline_batch := []\<rparr>)"
  by (simp add: flushInline_def loadChunk_def recorder_def)

section \<open>Groups\<close>

text \<open>
  The two kinds of chunk: lines of which all but the last ask for a chain continuation (a
  single line among them), and plain batches within the size limit, without chains and without
  phrase-file operators.
\<close>

definition chain_group :: "string list \<Rightarrow> bool" where
  "chain_group g \<longleftrightarrow> g \<noteq> [] \<and> (\<forall>l \<in> set (butlast g). line_requests_chain l)"

definition plain_group :: "string list \<Rightarrow> bool" where
  "plain_group g \<longleftrightarrow> g \<noteq> [] \<and> (\<forall>l \<in> set g. \<not> line_requests_chain l \<and> \<not> is_file_phrase_op l) \<and>
     length (text_of_lines g) \<le> kMaxInlineChunkBytes"

text \<open>The state of the loop between two lines: the lines of the batch and what is known of them.\<close>

definition batch_inv :: "'u load_state \<Rightarrow> string list \<Rightarrow> bool" where
  "batch_inv s g \<longleftrightarrow> inline_batch s = text_of_lines g \<and>
     (if pending_chain s then g \<noteq> [] \<and> (\<forall>l \<in> set g. line_requests_chain l)
      else (\<forall>l \<in> set g. \<not> line_requests_chain l \<and> \<not> is_file_phrase_op l) \<and>
        length (text_of_lines g) < kMaxInlineChunkBytes)"

definition chunk_of :: "string list \<Rightarrow> string \<times> string" where
  "chunk_of g = (''inline-directives'', text_of_lines g)"

text \<open>A chunk that the loop may emit before it has seen the last line.\<close>

definition closed_group :: "string list \<Rightarrow> bool" where
  "closed_group g \<longleftrightarrow> (chain_group g \<or> plain_group g) \<and> \<not> line_requests_chain (last g)"

lemma batch_inv_start: "batch_inv (load_start u e) []"
  by (simp add: batch_inv_def load_start_def kMaxInlineChunkBytes_def)

lemma plain_flush:
  assumes "batch_inv s g" "\<not> pending_chain s"
  shows "\<exists>gs. concat gs = g \<and> (\<forall>h \<in> set gs. closed_group h) \<and>
    flushInline (Some recorder) s =
      (True, s\<lparr>ls_user := ls_user s @ map chunk_of gs, inline_batch := []\<rparr>)"
proof (cases "g = []")
  case True
  with assms show ?thesis
    by (intro exI [of _ "[]"]) (simp add: flush_recorder batch_inv_def)
next
  case False
  with assms have "closed_group g"
    by (auto simp: closed_group_def plain_group_def batch_inv_def)
  with False assms show ?thesis
    by (intro exI [of _ "[g]"]) (simp add: flush_recorder batch_inv_def chunk_of_def)
qed

lemma chain_snoc: "\<forall>l \<in> set g. line_requests_chain l \<Longrightarrow> chain_group (g @ [l])"
  by (simp add: chain_group_def)

text \<open>One accepted line: some closed groups are emitted, the rest stays in the batch.\<close>

definition line_step :: "(string \<times> string) list load_state \<Rightarrow> string list \<Rightarrow> string \<Rightarrow>
    bool \<times> (string \<times> string) list load_state \<Rightarrow> bool" where
  "line_step s g l r \<longleftrightarrow> (\<exists>gs g'. concat gs @ g' = g @ [l] \<and> (\<forall>h \<in> set gs. closed_group h) \<and>
     fst r \<and> ls_user (snd r) = ls_user s @ map chunk_of gs \<and> batch_inv (snd r) g' \<and>
     ls_seen (snd r) = ls_seen s \<and> ls_error (snd r) = ls_error s)"

text \<open>Appending to the open batch and emitting it.\<close>

lemma close_batch:
  assumes "inline_batch s = text_of_lines g" "closed_group (g @ [l])"
  shows "line_step s g l
    (flushInline (Some recorder) ((append_line l s)\<lparr>pending_chain := False\<rparr>))"
  unfolding line_step_def using assms
  by (intro exI [of _ "[g @ [l]]"] exI [of _ "[]"])
    (simp add: flush_recorder append_line_def chunk_of_def batch_inv_def kMaxInlineChunkBytes_def)

lemma keep_batch:
  assumes "batch_inv ((append_line l s)\<lparr>pending_chain := p\<rparr>) (g @ [l])"
  shows "line_step s g l (True, (append_line l s)\<lparr>pending_chain := p\<rparr>)"
  unfolding line_step_def using assms
  by (intro exI [of _ "[]"] exI [of _ "g @ [l]"]) (simp add: append_line_def)

text \<open>A flush of the plain batch first.\<close>

lemma after_flush:
  assumes "batch_inv s g" "\<not> pending_chain s"
    and "\<And>u. line_step (s\<lparr>ls_user := u, inline_batch := []\<rparr>) [] l (f (s\<lparr>ls_user := u, inline_batch := []\<rparr>))"
  shows "\<exists>s1. flushInline (Some recorder) s = (True, s1) \<and> pending_chain s1 = pending_chain s \<and>
    line_step s g l (f s1)"
proof -
  obtain gs where gs: "concat gs = g" "\<forall>h \<in> set gs. closed_group h"
    and fl: "flushInline (Some recorder) s =
      (True, s\<lparr>ls_user := ls_user s @ map chunk_of gs, inline_batch := []\<rparr>)"
    using plain_flush [OF assms(1,2)] by blast
  let ?s1 = "s\<lparr>ls_user := ls_user s @ map chunk_of gs, inline_batch := []\<rparr>"
  obtain hs g' where "concat hs @ g' = [l]" "\<forall>h \<in> set hs. closed_group h" "fst (f ?s1)"
    "ls_user (snd (f ?s1)) = ls_user ?s1 @ map chunk_of hs" "batch_inv (snd (f ?s1)) g'"
    "ls_seen (snd (f ?s1)) = ls_seen s" "ls_error (snd (f ?s1)) = ls_error s"
    using assms(3) [of "ls_user s @ map chunk_of gs"] unfolding line_step_def by auto
  then have "line_step s g l (f ?s1)"
    unfolding line_step_def using gs
    by (intro exI [of _ "gs @ hs"] exI [of _ g']) auto
  with fl show ?thesis by simp
qed

text \<open>The two ends of an iteration: the line joins the open batch, which may then be emitted.\<close>

lemma join_pending:
  assumes "batch_inv s g" "pending_chain s"
  shows "line_step s g l
    (let s2 = (append_line l s)\<lparr>pending_chain := line_requests_chain l\<rparr>
     in if \<not> pending_chain s2 then flushInline (Some recorder) s2 else (True, s2))"
proof (cases "line_requests_chain l")
  case True
  with assms have "batch_inv ((append_line l s)\<lparr>pending_chain := True\<rparr>) (g @ [l])"
    by (auto simp: batch_inv_def append_line_def)
  with True keep_batch [where l = l and s = s and p = True and g = g] show ?thesis by (simp add: Let_def)
next
  case False
  with assms have "closed_group (g @ [l])" "inline_batch s = text_of_lines g"
    by (auto simp: closed_group_def chain_group_def batch_inv_def)
  with False close_batch [of s g l] show ?thesis by (simp add: Let_def)
qed

lemma join_empty:
  assumes "inline_batch s = []" "line_requests_chain l \<or> is_file_phrase_op l"
  shows "line_step s [] l
    (let s2 = (append_line l s)\<lparr>pending_chain := line_requests_chain l\<rparr>
     in if \<not> pending_chain s2 then flushInline (Some recorder) s2 else (True, s2))"
proof (cases "line_requests_chain l")
  case True
  with assms have "batch_inv ((append_line l s)\<lparr>pending_chain := True\<rparr>) ([] @ [l])"
    by (auto simp: batch_inv_def append_line_def)
  with True keep_batch [where l = l and s = s and p = True and g = "[]"] show ?thesis by (simp add: Let_def)
next
  case False
  then have "closed_group ([] @ [l])" by (simp add: closed_group_def chain_group_def)
  with False assms close_batch [of s "[]" l] show ?thesis by (simp add: Let_def)
qed

lemma join_plain:
  assumes "batch_inv s g" "\<not> pending_chain s" "\<not> line_requests_chain l" "\<not> is_file_phrase_op l"
    and "g = [] \<or> length (inline_batch s) + length l + 1 \<le> kMaxInlineChunkBytes"
  shows "line_step s g l
    (let s2 = (append_line l s)\<lparr>pending_chain := False\<rparr>
     in if kMaxInlineChunkBytes \<le> length (inline_batch s2)
        then flushInline (Some recorder) s2 else (True, s2))"
proof (cases "kMaxInlineChunkBytes \<le> length (text_of_lines (g @ [l]))")
  case True
  have "closed_group (g @ [l])"
  proof (cases "g = []")
    case True
    then show ?thesis using assms(3) by (simp add: closed_group_def chain_group_def)
  next
    case False
    with assms have "plain_group (g @ [l])" by (auto simp: plain_group_def batch_inv_def)
    then show ?thesis using assms(3) by (simp add: closed_group_def)
  qed
  with True assms(1) close_batch [of s g l] show ?thesis
    by (simp add: Let_def append_line_def batch_inv_def)
next
  case False
  with assms have "batch_inv ((append_line l s)\<lparr>pending_chain := False\<rparr>) (g @ [l])"
    by (auto simp: batch_inv_def append_line_def)
  moreover have "inline_batch s = text_of_lines g" using assms(1) by (simp add: batch_inv_def)
  ultimately show ?thesis using False keep_batch [where l = l and s = s and p = False and g = g]
    by (simp add: Let_def append_line_def)
qed

definition directive :: "string \<Rightarrow> bool" where
  "directive l \<longleftrightarrow> l \<noteq> [] \<and> \<not> starts_with l ''#'' \<and> \<not> is_include l"

lemma batch_inv_reset: "\<not> pending_chain s \<Longrightarrow> batch_inv (s\<lparr>ls_user := u, inline_batch := []\<rparr>) []"
  by (simp add: batch_inv_def kMaxInlineChunkBytes_def)

lemma apply_line_step:
  assumes inv: "batch_inv s g" and l: "trim raw = l" "directive l"
  shows "line_step s g l (apply_line cat (Some recorder) raw s)"
proof -
  consider (pending) "pending_chain s"
    | (alone) "\<not> pending_chain s" "line_requests_chain l \<or> is_file_phrase_op l"
    | (full) "\<not> pending_chain s" "\<not> line_requests_chain l" "\<not> is_file_phrase_op l"
        "inline_batch s \<noteq> []" "kMaxInlineChunkBytes < length (inline_batch s) + length l + 1"
    | (room) "\<not> pending_chain s" "\<not> line_requests_chain l" "\<not> is_file_phrase_op l"
        "inline_batch s = [] \<or> length (inline_batch s) + length l + 1 \<le> kMaxInlineChunkBytes"
    by linarith
  then show ?thesis
  proof cases
    case pending
    then show ?thesis
      using join_pending [OF inv, of l] l
      by (cases "line_requests_chain l"; cases "is_file_phrase_op l")
        (simp_all add: apply_line_def directive_def is_include_def Let_def)
  next
    case alone
    from after_flush [OF inv alone(1) join_empty [of _ l]] alone(2)
    obtain s1 where "flushInline (Some recorder) s = (True, s1)" "pending_chain s1 = pending_chain s"
      "line_step s g l (let s2 = (append_line l s1)\<lparr>pending_chain := line_requests_chain l\<rparr>
         in if \<not> pending_chain s2 then flushInline (Some recorder) s2 else (True, s2))"
      by auto
    with alone l show ?thesis
      by (auto simp: apply_line_def directive_def is_include_def Let_def)
  next
    case full
    from after_flush [OF inv full(1), of l, OF join_plain [OF batch_inv_reset]] full
    obtain s1 where "flushInline (Some recorder) s = (True, s1)" "pending_chain s1 = pending_chain s"
      "line_step s g l (let s2 = (append_line l s1)\<lparr>pending_chain := False\<rparr>
         in if kMaxInlineChunkBytes \<le> length (inline_batch s2)
            then flushInline (Some recorder) s2 else (True, s2))"
      by auto
    with full l show ?thesis
      by (simp add: apply_line_def directive_def is_include_def Let_def)
  next
    case room
    then have "g = [] \<or> length (inline_batch s) + length l + 1 \<le> kMaxInlineChunkBytes"
      using inv by (auto simp: batch_inv_def)
    from join_plain [OF inv room(1-3) this] room l show ?thesis
      by (auto simp: apply_line_def directive_def is_include_def Let_def)
  qed
qed

text \<open>The whole loop on lines without includes.\<close>

definition batch_result :: "string list list \<Rightarrow> string list \<Rightarrow> bool" where
  "batch_result gs ls \<longleftrightarrow> concat gs = ls \<and>
     (\<forall>g \<in> set gs. chain_group g \<or> plain_group g) \<and>
     (\<forall>g \<in> set (butlast gs). \<not> line_requests_chain (last g))"

lemma batch_result_append:
  assumes "\<forall>g \<in> set gs. closed_group g" "batch_result hs ls"
  shows "batch_result (gs @ hs) (concat gs @ ls)"
proof -
  have "\<forall>g \<in> set (butlast (gs @ hs)). \<not> line_requests_chain (last g)"
    using assms by (auto simp: butlast_append batch_result_def closed_group_def dest: in_set_butlastD)
  then show ?thesis using assms by (auto simp: batch_result_def closed_group_def)
qed

lemma final_flush:
  assumes "batch_inv s g"
  shows "\<exists>gs. batch_result gs g \<and> fst (flushInline (Some recorder) s) \<and>
    ls_user (snd (flushInline (Some recorder) s)) = ls_user s @ map chunk_of gs"
proof (cases "g = []")
  case True
  with assms show ?thesis
    by (intro exI [of _ "[]"]) (simp add: flush_recorder batch_inv_def batch_result_def)
next
  case False
  with assms have "chain_group g \<or> plain_group g"
    by (auto simp: chain_group_def plain_group_def batch_inv_def dest: in_set_butlastD split: if_splits)
  with False assms show ?thesis
    by (intro exI [of _ "[g]"]) (simp add: flush_recorder batch_inv_def batch_result_def chunk_of_def)
qed

lemma apply_lines_groups:
  assumes "batch_inv s g" "\<forall>l \<in> set (accepted_lines raws). \<not> is_include l"
  shows "\<exists>gs. batch_result gs (g @ accepted_lines raws) \<and>
    fst (apply_lines cat (Some recorder) raws s) \<and>
    ls_user (snd (apply_lines cat (Some recorder) raws s)) = ls_user s @ map chunk_of gs"
  using assms
proof (induction raws arbitrary: s g)
  case Nil
  with final_flush [OF Nil.prems(1)] show ?case by (simp add: accepted_lines_def)
next
  case (Cons raw raws)
  show ?case
  proof (cases "trim raw = [] \<or> starts_with (trim raw) ''#''")
    case True
    then have "accepted_lines (raw # raws) = accepted_lines raws"
      "apply_line cat (Some recorder) raw s = (True, s)"
      by (auto simp: accepted_lines_def apply_line_def)
    with Cons show ?thesis by simp
  next
    case False
    then have acc: "accepted_lines (raw # raws) = trim raw # accepted_lines raws"
      by (auto simp: accepted_lines_def)
    with False Cons.prems(2) have "directive (trim raw)" by (auto simp: directive_def)
    from apply_line_step [OF Cons.prems(1) refl this] obtain gs g' s' where
      st: "concat gs @ g' = g @ [trim raw]" "\<forall>h \<in> set gs. closed_group h"
        "apply_line cat (Some recorder) raw s = (True, s')"
        "ls_user s' = ls_user s @ map chunk_of gs" "batch_inv s' g'"
      unfolding line_step_def by (metis prod.collapse)
    from Cons.IH [OF st(5)] Cons.prems(2) acc obtain hs where
      hs: "batch_result hs (g' @ accepted_lines raws)"
        "fst (apply_lines cat (Some recorder) raws s')"
        "ls_user (snd (apply_lines cat (Some recorder) raws s')) = ls_user s' @ map chunk_of hs"
      by auto
    from batch_result_append [OF st(2) hs(1)] st(1)
    have "batch_result (gs @ hs) (g @ accepted_lines (raw # raws))"
      by (simp add: acc) (metis append.assoc append_Cons append_Nil)
    with hs st show ?thesis by (intro exI [of _ "gs @ hs"]) simp
  qed
qed

section \<open>What a chain is\<close>

text \<open>
  A chained rule as its author writes it: the line ends with a quoted list of actions, separated
  by commas, and one of them is \<^verbatim>\<open>chain\<close>. The list may consist of it alone; an author who
  opens a longer list with it is not understood by the code (\<open>leading_chain_not_seen\<close>), and such
  lines are not meant here.
\<close>

fun comma_joined :: "string list \<Rightarrow> string" where
  "comma_joined [] = []"
| "comma_joined [a] = a"
| "comma_joined (a # b # as) = a @ CHR '','' # comma_joined (b # as)"

definition asks_chain :: "string \<Rightarrow> bool" where
  "asks_chain line \<longleftrightarrow> (\<exists>head acts. line = head @ DQUOTE # comma_joined acts @ [DQUOTE] \<and>
     ''chain'' \<in> set acts \<and> (hd acts \<noteq> ''chain'' \<or> acts = [''chain'']))"

text \<open>
  A group that may be longer than a batch: in all lines but the last, \<^verbatim>\<open>chain\<close> follows a comma or
  a quote, where an action starts. A single line is such a group.
\<close>

definition one_chain :: "string list \<Rightarrow> bool" where
  "one_chain g \<longleftrightarrow> (\<forall>l \<in> set (butlast g). contains l '',chain'' \<or> contains l (DQUOTE # ''chain''))"

lemma comma_joined_append:
  "xs \<noteq> [] \<Longrightarrow> ys \<noteq> [] \<Longrightarrow> comma_joined (xs @ ys) = comma_joined xs @ CHR '','' # comma_joined ys"
proof (induction xs rule: comma_joined.induct)
  case (2 a)
  then show ?case by (cases ys) auto
qed auto

lemma asks_chain_seen:
  assumes "asks_chain line"
  shows "line_requests_chain line"
proof -
  from assms obtain head acts where l: "line = head @ DQUOTE # comma_joined acts @ [DQUOTE]"
    and c: "''chain'' \<in> set acts" "hd acts \<noteq> ''chain'' \<or> acts = [''chain'']"
    unfolding asks_chain_def by blast
  from c(1) obtain pre post where acts: "acts = pre @ ''chain'' # post" by (auto simp: in_set_conv_decomp)
  show ?thesis
  proof (cases "pre = []")
    case True
    with acts c(2) have "line = head @ (DQUOTE # ''chain'' @ [DQUOTE]) @ []" using l by auto
    then have "contains line (DQUOTE # ''chain'' @ [DQUOTE])" unfolding contains_iff by blast
    then show ?thesis by (simp add: line_requests_chain_def)
  next
    case False
    have j: "comma_joined acts = comma_joined pre @ CHR '','' # comma_joined (''chain'' # post)"
      unfolding acts using False by (intro comma_joined_append) simp_all
    show ?thesis
    proof (cases post)
      case Nil
      then have "line = (head @ DQUOTE # comma_joined pre) @ ('',chain'' @ [DQUOTE]) @ []"
        using l j by simp
      then have "contains line ('',chain'' @ [DQUOTE])" unfolding contains_iff by blast
      then show ?thesis by (simp add: line_requests_chain_def)
    next
      case (Cons b bs)
      then have "line = (head @ DQUOTE # comma_joined pre) @ '',chain,'' @ (comma_joined post @ [DQUOTE])"
        using l j by simp
      then have "contains line '',chain,''" unfolding contains_iff by blast
      then show ?thesis by (simp add: line_requests_chain_def)
    qed
  qed
qed

lemma contains_front: "contains l (n @ b) \<Longrightarrow> contains l n"
  unfolding contains_iff by (metis append.assoc)

lemma chain_word:
  assumes "line_requests_chain l"
  shows "contains l '',chain'' \<or> contains l (DQUOTE # ''chain'')"
proof -
  have e: "contains l '',chain''" if "6 \<le> length l" "substr (length l - 6) 6 l = '',chain''"
  proof -
    have "l = take (length l - 6) l @ '',chain'' @ []"
      using that append_take_drop_id [of "length l - 6" l] by (simp add: substr_def)
    then show ?thesis unfolding contains_iff by blast
  qed
  have f: "contains l '',chain''" if "contains l ('',chain'' @ t)" for t
    using contains_front [OF that] .
  have g: "contains l (DQUOTE # ''chain'')" if "contains l ((DQUOTE # ''chain'') @ t)" for t
    using contains_front [OF that] .
  show ?thesis
    using assms e f [of "[DQUOTE]"] f [of "'',''"] f [of "[LF]"] g [of "[DQUOTE]"]
    by (auto simp: line_requests_chain_def)
qed

text \<open>The groups of the loop in these terms.\<close>

definition chunks_spec :: "string list list \<Rightarrow> string list \<Rightarrow> bool" where
  "chunks_spec groups ls \<longleftrightarrow> concat groups = ls \<and>
     (\<forall>g \<in> set groups. g \<noteq> [] \<and> (length (text_of_lines g) \<le> 4096 \<or> one_chain g)) \<and>
     (\<forall>g \<in> set groups. \<forall>l \<in> set g. contains l ''@pmFromFile'' \<or> contains l ''@ipMatchFromFile'' \<longrightarrow> one_chain g) \<and>
     (\<forall>g \<in> set (butlast groups). \<not> asks_chain (last g))"

lemma batch_result_spec:
  assumes "batch_result gs ls"
  shows "chunks_spec gs ls"
proof -
  have c: "chain_group g \<Longrightarrow> g \<noteq> [] \<and> one_chain g" for g
    by (simp add: chain_group_def one_chain_def chain_word)
  have g: "g \<noteq> [] \<and> (length (text_of_lines g) \<le> 4096 \<or> one_chain g) \<and>
      (\<forall>l \<in> set g. contains l ''@pmFromFile'' \<or> contains l ''@ipMatchFromFile'' \<longrightarrow> one_chain g)"
    if "chain_group g \<or> plain_group g" for g
    using that c [of g] by (auto simp: plain_group_def is_file_phrase_op_def kMaxInlineChunkBytes_def)
  show ?thesis
    unfolding chunks_spec_def using assms g asks_chain_seen unfolding batch_result_def by blast
qed

end
