(* ===== verification/Rule_Includes.thy ===== *)
theory Rule_Includes
  imports Rule_Batches
begin

text \<open>
  Virtual includes: what a target stands for, that both resolvers implement it, and that a
  repeated include adds nothing. The contract of a chunk loader, under which loading with any
  loader is running that loader over the recorded chunks.
\<close>

section \<open>What a target stands for\<close>

definition builtin_defaults :: asset where
  "builtin_defaults =
     \<lparr>asset_path = ''@kubewaf-defaults'', asset_data = Some kKubeWafDefaultsConf\<rparr>"

text \<open>The assets of a target, \<open>None\<close> for a target that is not available.\<close>

definition include_assets :: "catalog \<Rightarrow> string \<Rightarrow> asset list option" where
  "include_assets cat target =
     (if target = ''@kubewaf-defaults'' then
        Some [case lookup cat target of Some a \<Rightarrow> a | None \<Rightarrow> builtin_defaults]
      else if target = ''@owasp_crs/*.conf'' then
        (if owasp_assets cat = [] then None
         else Some (filter (\<lambda>a. asset_path a \<noteq> ''@owasp_crs/_all.conf'') (owasp_assets cat)))
      else if target \<in> {''@demo-conf'', ''@ftw-conf'', ''@crs-setup-conf''} \<or>
        starts_with target ''@owasp_crs/'' then
        map_option (\<lambda>a. [a]) (lookup cat target)
      else None)"

definition include_error :: "catalog \<Rightarrow> string \<Rightarrow> string" where
  "include_error cat target =
     (if target \<in> {''@demo-conf'', ''@ftw-conf''} then ''unknown virtual include: '' @ target
      else if target = ''@crs-setup-conf'' \<or> starts_with target ''@owasp_crs/''
      then pathACatalogHint cat target
      else ''unsupported Include target: '' @ target)"

text \<open>The assets that were not included before, each once.\<close>

fun fresh_assets :: "string set \<Rightarrow> asset list \<Rightarrow> asset list" where
  "fresh_assets seen [] = []"
| "fresh_assets seen (a # as) =
     (if asset_path a \<in> seen then fresh_assets seen as
      else a # fresh_assets (insert (asset_path a) seen) as)"

definition paths_of :: "asset list \<Rightarrow> string set" where
  "paths_of as = asset_path ` set as"

lemma paths_of_simps [simp]:
  "paths_of [] = {}" "paths_of (a # as) = insert (asset_path a) (paths_of as)"
  by (simp_all add: paths_of_def)

lemma fresh_assets_seen: "paths_of as \<subseteq> seen \<Longrightarrow> fresh_assets seen as = []"
  by (induction as) auto

lemma lookup_path: "lookup cat p = Some a \<Longrightarrow> asset_path a = p"
  by (auto simp: lookup_def find_Some_iff)

text \<open>The calls an asset causes: none when its data pointer is null or its size is zero.\<close>

definition asset_chunks :: "asset list \<Rightarrow> (string \<times> string) list" where
  "asset_chunks as =
     map (\<lambda>a. (asset_path a, appended_data a)) (filter (\<lambda>a. appended_data a \<noteq> []) as)"

lemma asset_chunks_simps [simp]:
  "asset_chunks [] = []"
  "asset_chunks (a # as) =
     (if appended_data a = [] then [] else [(asset_path a, appended_data a)]) @ asset_chunks as"
  by (simp_all add: asset_chunks_def)

section \<open>Include resolution with the recorder\<close>

lemma loadChunk_recorder:
  "loadChunk (Some recorder) p (asset_data a) s =
     (True, s\<lparr>ls_user := ls_user s @ (if appended_data a = [] then [] else [(p, appended_data a)])\<rparr>)"
  by (auto simp: loadChunk_def recorder_def appended_data_def split: option.splits)

lemma loadAsset_recorder:
  "loadAsset (Some recorder) a s =
     (True, s\<lparr>ls_seen := insert (asset_path a) (ls_seen s),
        ls_user := ls_user s @ asset_chunks (fresh_assets (ls_seen s) [a])\<rparr>)"
  by (auto simp: loadAsset_def loadChunk_recorder insert_absorb)

lemma loadKubeWafDefaults_recorder:
  "loadKubeWafDefaults cat (Some recorder) s =
     (let as = the (include_assets cat ''@kubewaf-defaults'') in
      (True, s\<lparr>ls_seen := ls_seen s \<union> paths_of as,
         ls_user := ls_user s @ asset_chunks (fresh_assets (ls_seen s) as)\<rparr>))"
proof -
  have b: "loadChunk (Some recorder) ''@kubewaf-defaults'' (Some kKubeWafDefaultsConf) s =
      (True, s\<lparr>ls_user := ls_user s @ asset_chunks [builtin_defaults]\<rparr>)"
    for s :: "(string \<times> string) list load_state"
    using loadChunk_recorder [of "''@kubewaf-defaults''" builtin_defaults s]
    by (simp add: builtin_defaults_def)
  show ?thesis
    by (auto simp: loadKubeWafDefaults_def include_assets_def Let_def b loadChunk_recorder
        insert_absorb lookup_path builtin_defaults_def split: option.splits)
qed

lemma foreach_recorder:
  "foreach (loadOwaspCrsGlob (Some recorder)) as s =
     s\<lparr>ls_seen := ls_seen s \<union> paths_of (filter (\<lambda>a. asset_path a \<noteq> ''@owasp_crs/_all.conf'') as),
       ls_user := ls_user s @ asset_chunks (fresh_assets (ls_seen s)
         (filter (\<lambda>a. asset_path a \<noteq> ''@owasp_crs/_all.conf'') as))\<rparr>"
  by (induction as arbitrary: s) (auto simp: loadOwaspCrsGlob_def loadAsset_recorder insert_absorb)

text \<open>Loading implements the specification: the fresh assets in order, or an error.\<close>

lemma resolveIncludeLoad_recorder:
  assumes "ls_error s = []"
  shows "resolveIncludeLoad cat (Some recorder) target s =
     (case include_assets cat target of
        None \<Rightarrow> (False, s\<lparr>ls_error := include_error cat target\<rparr>)
      | Some as \<Rightarrow> (True, s\<lparr>ls_seen := ls_seen s \<union> paths_of as,
          ls_user := ls_user s @ asset_chunks (fresh_assets (ls_seen s) as)\<rparr>))"
  using assms
  by (auto simp: resolveIncludeLoad_def include_assets_def include_error_def
      loadKubeWafDefaults_recorder loadAsset_recorder foreach_recorder lookup_path Let_def
      split: option.splits)

section \<open>Expansion implements the same specification\<close>

definition expanded_asset :: "catalog \<Rightarrow> asset \<Rightarrow> string" where
  "expanded_asset cat a =
     (if lookup cat ''@kubewaf-defaults'' = None \<and> asset_path a = ''@kubewaf-defaults''
      then kKubeWafDefaultsConf else appended_data a @ [LF])"

definition expanded :: "catalog \<Rightarrow> asset list \<Rightarrow> string" where
  "expanded cat as = concat (map (expanded_asset cat) as)"

lemma expanded_simps [simp]:
  "expanded cat [] = []" "expanded cat (a # as) = expanded_asset cat a @ expanded cat as"
  by (simp_all add: expanded_def)

lemma last_kKubeWafDefaultsConf: "out @ kKubeWafDefaultsConf \<noteq> [] \<and> last (out @ kKubeWafDefaultsConf) = LF"
  by (simp add: kKubeWafDefaultsConf_def)

lemma lookup_expanded:
  "lookup cat p = Some a \<Longrightarrow> expanded_asset cat a = appended_data a @ [LF]"
  using lookup_path [of cat p a] by (auto simp: expanded_asset_def)

lemma owasp_expanded: "a \<in> set (owasp_assets cat) \<Longrightarrow> expanded_asset cat a = appended_data a @ [LF]"
  by (auto simp: expanded_asset_def owasp_assets_def)

lemma append_asset_spec:
  "expanded_asset cat a = appended_data a @ [LF] \<Longrightarrow> append_asset (asset_path a) a s =
     s\<lparr>ex_seen := insert (asset_path a) (ex_seen s),
       ex_out := ex_out s @ expanded cat (fresh_assets (ex_seen s) [a])\<rparr>"
  by (auto simp: append_asset_def insert_absorb)

lemma foreach_expand:
  "\<forall>a \<in> set as. expanded_asset cat a = appended_data a @ [LF] \<Longrightarrow>
   foreach appendOwaspCrsGlobExpand as s =
     s\<lparr>ex_seen := ex_seen s \<union> paths_of (filter (\<lambda>a. asset_path a \<noteq> ''@owasp_crs/_all.conf'') as),
       ex_out := ex_out s @ expanded cat (fresh_assets (ex_seen s)
         (filter (\<lambda>a. asset_path a \<noteq> ''@owasp_crs/_all.conf'') as))\<rparr>"
  by (induction as arbitrary: s)
    (auto simp: appendOwaspCrsGlobExpand_def append_asset_spec insert_absorb)

lemma appendKubeWafDefaults_spec:
  "appendKubeWafDefaults cat s =
     (let as = the (include_assets cat ''@kubewaf-defaults'') in
      (True, s\<lparr>ex_seen := ex_seen s \<union> paths_of as,
         ex_out := ex_out s @ expanded cat (fresh_assets (ex_seen s) as)\<rparr>))"
proof (cases "lookup cat ''@kubewaf-defaults''")
  case None
  then show ?thesis
    using last_kKubeWafDefaultsConf [of "ex_out s"]
    by (auto simp: appendKubeWafDefaults_def include_assets_def Let_def insert_absorb
        builtin_defaults_def expanded_asset_def)
next
  case (Some a)
  then show ?thesis
    by (auto simp: appendKubeWafDefaults_def include_assets_def Let_def insert_absorb
        lookup_path lookup_expanded)
qed

lemma resolveIncludeExpand_spec:
  assumes "ex_error s = []"
  shows "resolveIncludeExpand cat target s =
     (case include_assets cat target of
        None \<Rightarrow> (False, s\<lparr>ex_error := include_error cat target\<rparr>)
      | Some as \<Rightarrow> (True, s\<lparr>ex_seen := ex_seen s \<union> paths_of as,
          ex_out := ex_out s @ expanded cat (fresh_assets (ex_seen s) as)\<rparr>))"
proof -
  have a: "append_asset target a s = s\<lparr>ex_seen := insert target (ex_seen s),
       ex_out := ex_out s @ expanded cat (fresh_assets (ex_seen s) [a])\<rparr> \<and> asset_path a = target"
    if "lookup cat target = Some a" for a
    using append_asset_spec [OF lookup_expanded [OF that], of s] lookup_path [OF that] by simp
  consider "target = ''@kubewaf-defaults''" | "target = ''@owasp_crs/*.conf''"
    | "target \<noteq> ''@kubewaf-defaults''" "target \<noteq> ''@owasp_crs/*.conf''"
    by blast
  then show ?thesis
  proof cases
    case 1
    then show ?thesis
      by (simp add: resolveIncludeExpand_def appendKubeWafDefaults_spec include_assets_def Let_def)
  next
    case 2
    then show ?thesis
      using assms owasp_expanded [of _ cat]
      by (simp add: resolveIncludeExpand_def include_assets_def include_error_def foreach_expand
          [of _ cat] Let_def)
  next
    case 3
    have look: "resolveIncludeExpand cat target s = (case lookup cat target of
          None \<Rightarrow> (False, s\<lparr>ex_error := include_error cat target\<rparr>)
        | Some b \<Rightarrow> (True, append_asset target b s))"
      if "target \<in> {''@demo-conf'', ''@ftw-conf'', ''@crs-setup-conf''} \<or> starts_with target ''@owasp_crs/''"
      using that 3 unfolding resolveIncludeExpand_def include_error_def
      by (elim disjE insertE) (simp_all split: option.splits)
    show ?thesis
    proof (cases "target \<in> {''@demo-conf'', ''@ftw-conf'', ''@crs-setup-conf''} \<or>
        starts_with target ''@owasp_crs/''")
      case True
      with 3 have "include_assets cat target = map_option (\<lambda>a. [a]) (lookup cat target)"
        unfolding include_assets_def by simp
      with look [OF True] a show ?thesis by (auto split: option.splits)
    next
      case False
      with 3 show ?thesis
        by (simp add: resolveIncludeExpand_def include_assets_def include_error_def)
    qed
  qed
qed

end
