(* ===== verification/Rule_Contracts.thy ===== *)
theory Rule_Contracts
  imports Rule_Includes
begin

text \<open>
  The two contracts of rule loading: what \<^verbatim>\<open>applyJsonConfig\<close> needs of a chunk loader, and
  what the loops over the lines need of an include resolver.
\<close>

section \<open>Chunk loaders\<close>

text \<open>Handing the chunks to a loader in order, up to the first failure.\<close>

fun run_chunks :: "'u chunk_load \<Rightarrow> (string \<times> string) list \<Rightarrow> 'u \<Rightarrow> bool \<times> 'u \<times> string" where
  "run_chunks load [] u = (True, u, [])"
| "run_chunks load ((l, d) # cs) u =
     (case load l d u [] of (ok, u', e) \<Rightarrow> if ok then run_chunks load cs u' else (False, u', e))"

definition same_core :: "'a load_state \<Rightarrow> 'b load_state \<Rightarrow> bool" where
  "same_core r s \<longleftrightarrow> ls_seen r = ls_seen s \<and> inline_batch r = inline_batch s \<and>
     pending_chain r = pending_chain s \<and> ls_error r = [] \<and> ls_error s = []"

text \<open>
  A run \<open>L\<close> with a loader follows the run \<open>R\<close> with the recorder: \<open>R\<close> records some more
  chunks, and \<open>L\<close> is the loader run on these.
\<close>

definition follows :: "'u chunk_load \<Rightarrow> (string \<times> string) list load_state \<Rightarrow> 'u load_state \<Rightarrow>
    bool \<times> (string \<times> string) list load_state \<Rightarrow> bool \<times> 'u load_state \<Rightarrow> bool" where
  "follows load r s R L \<longleftrightarrow> (\<exists>cs ok u e.
     ls_user (snd R) = ls_user r @ cs \<and> run_chunks load cs (ls_user s) = (ok, u, e) \<and>
     (fst R \<longrightarrow> ls_error (snd R) = []) \<and> fst L = (ok \<and> fst R) \<and> ls_user (snd L) = u \<and>
     (ok \<longrightarrow> fst R \<longrightarrow> same_core (snd R) (snd L)) \<and>
     (ok \<longrightarrow> \<not> fst R \<longrightarrow> ls_error (snd L) = ls_error (snd R)) \<and>
     (\<not> ok \<longrightarrow> ls_error (snd L) = e))"

definition tracks :: "'u chunk_load \<Rightarrow>
    ((string \<times> string) list load_state \<Rightarrow> bool \<times> (string \<times> string) list load_state) \<Rightarrow>
    ('u load_state \<Rightarrow> bool \<times> 'u load_state) \<Rightarrow> bool" where
  "tracks load F G \<longleftrightarrow> (\<forall>r s. same_core r s \<longrightarrow> follows load r s (F r) (G s))"

text \<open>The result of a load from the results of its chunks.\<close>

definition outcome :: "bool \<Rightarrow> string \<Rightarrow> bool \<times> 'u \<times> string \<Rightarrow> bool \<times> 'u \<times> string" where
  "outcome ok err r = (case r of (all, u, e) \<Rightarrow> if all then (ok, u, err) else (False, u, e))"

locale chunk_loader =
  fixes load :: "'u chunk_load"
  assumes success_keeps_error: "load l d u e = (True, u', e') \<Longrightarrow> e' = e"
    and failure_sets_error: "load l d u e = (False, u', e') \<Longrightarrow> e' \<noteq> []"
begin

lemma run_chunks_append:
  "run_chunks load (cs @ ds) u =
     (case run_chunks load cs u of (ok, u', e) \<Rightarrow>
        if ok then run_chunks load ds u' else (False, u', e))"
  by (induction cs arbitrary: u) (auto split: prod.splits)

lemma run_chunks_error: "run_chunks load cs u = (ok, u', e) \<Longrightarrow> ok \<longleftrightarrow> e = []"
proof (induction cs arbitrary: u)
  case (Cons c cs)
  obtain l d where c: "c = (l, d)" by (cases c)
  obtain ok1 u1 e1 where r: "load l d u [] = (ok1, u1, e1)" by (cases "load l d u []")
  show ?case
  proof (cases ok1)
    case True
    with Cons r c show ?thesis by auto
  next
    case False
    with Cons.prems r c failure_sets_error show ?thesis by auto
  qed
qed simp

lemma tracksD: "tracks load F G \<Longrightarrow> same_core r s \<Longrightarrow> follows load r s (F r) (G s)"
  by (simp add: tracks_def)

lemma follows_done: "same_core r' s' \<Longrightarrow> ls_user r' = ls_user r \<Longrightarrow> ls_user s' = ls_user s \<Longrightarrow>
    follows load r s (True, r') (True, s')"
  unfolding follows_def by (intro exI [of _ "[]"] exI [of _ True]) (simp add: same_core_def)

lemma follows_fail: "ls_user r' = ls_user r \<Longrightarrow> ls_user s' = ls_user s \<Longrightarrow>
    ls_error r' = ls_error s' \<Longrightarrow> follows load r s (False, r') (False, s')"
  unfolding follows_def by (intro exI [of _ "[]"] exI [of _ True]) simp

lemma follows_and_then:
  assumes first: "follows load r s R L" and rest: "tracks load F G"
  shows "follows load r s (and_then R F) (and_then L G)"
proof -
  obtain okr r' okl s' where RL: "R = (okr, r')" "L = (okl, s')" by (cases R; cases L)
  obtain cs ok u e where cs: "ls_user r' = ls_user r @ cs"
      "run_chunks load cs (ls_user s) = (ok, u, e)" "okr \<Longrightarrow> ls_error r' = []"
      "okl = (ok \<and> okr)" "ls_user s' = u"
      "ok \<Longrightarrow> okr \<Longrightarrow> same_core r' s'" "ok \<Longrightarrow> \<not> okr \<Longrightarrow> ls_error s' = ls_error r'"
      "\<not> ok \<Longrightarrow> ls_error s' = e"
    using first unfolding follows_def RL fst_conv snd_conv by blast
  consider "\<not> okr" | "okr" "ok" | "okr" "\<not> ok" by blast
  then show ?thesis
  proof cases
    case 1
    then show ?thesis using cs unfolding follows_def RL by auto
  next
    case 2
    with cs have "follows load r' s' (F r') (G s')" by (simp add: tracksD [OF rest])
    then obtain ds ok2 u2 e2 where ds: "ls_user (snd (F r')) = ls_user r' @ ds"
      "run_chunks load ds (ls_user s') = (ok2, u2, e2)"
      "fst (F r') \<longrightarrow> ls_error (snd (F r')) = []" "fst (G s') = (ok2 \<and> fst (F r'))"
      "ls_user (snd (G s')) = u2" "ok2 \<longrightarrow> fst (F r') \<longrightarrow> same_core (snd (F r')) (snd (G s'))"
      "ok2 \<longrightarrow> \<not> fst (F r') \<longrightarrow> ls_error (snd (G s')) = ls_error (snd (F r'))"
      "\<not> ok2 \<longrightarrow> ls_error (snd (G s')) = e2"
      unfolding follows_def by blast
    show ?thesis using 2 cs ds unfolding follows_def RL
      by (intro exI [of _ "cs @ ds"] exI [of _ ok2] exI [of _ u2] exI [of _ e2])
        (auto simp: run_chunks_append)
  next
    case 3
    txt \<open>The recorder goes on where the loader has stopped: its further chunks do not matter.\<close>
    let ?t = "s'\<lparr>ls_seen := ls_seen r', inline_batch := inline_batch r',
      pending_chain := pending_chain r', ls_error := []\<rparr>"
    have "same_core r' ?t" using 3 cs(3) by (simp add: same_core_def)
    from tracksD [OF rest this] obtain ds where "ls_user (snd (F r')) = ls_user r' @ ds"
      "fst (F r') \<longrightarrow> ls_error (snd (F r')) = []"
      unfolding follows_def by blast
    with 3 cs show ?thesis unfolding follows_def RL
      by (intro exI [of _ "cs @ ds"] exI [of _ ok] exI [of _ u] exI [of _ e])
        (simp add: run_chunks_append)
  qed
qed

lemma tracks_and_then:
  "tracks load F G \<Longrightarrow> tracks load F' G' \<Longrightarrow>
   tracks load (\<lambda>r. and_then (F r) F') (\<lambda>s. and_then (G s) G')"
  unfolding tracks_def by (blast intro: follows_and_then [unfolded tracks_def])

section \<open>Every operation follows the recorder\<close>

lemma follows_loadChunk:
  assumes "same_core r' s'" "ls_user r' = ls_user r" "ls_user s' = ls_user s"
  shows "follows load r s (loadChunk (Some recorder) l d r') (loadChunk (Some load) l d s')"
proof (cases "d = None \<or> d = Some []")
  case True
  then show ?thesis using assms by (auto simp: loadChunk_def intro: follows_done)
next
  case False
  then obtain t where t: "d = Some t" "t \<noteq> []" by auto
  obtain ok u e where r: "load l t (ls_user s) [] = (ok, u, e)" by (cases "load l t (ls_user s) []")
  have R: "loadChunk (Some recorder) l d r' = (True, r'\<lparr>ls_user := ls_user r @ [(l, t)]\<rparr>)"
    using t assms by (simp add: loadChunk_def recorder_def)
  have L: "loadChunk (Some load) l d s' = (ok, s'\<lparr>ls_user := u, ls_error := e\<rparr>)"
    using t r assms by (simp add: loadChunk_def same_core_def)
  have "run_chunks load [(l, t)] (ls_user s) = (ok, u, e)"
    using r success_keeps_error [of l t "ls_user s" "[]" u e] by auto
  moreover have "ok \<Longrightarrow> e = []" using success_keeps_error r by auto
  ultimately show ?thesis
    using assms unfolding follows_def R L
    by (intro exI [of _ "[(l, t)]"] exI [of _ ok] exI [of _ u] exI [of _ e])
      (auto simp: same_core_def)
qed

lemma tracks_flushInline: "tracks load (flushInline (Some recorder)) (flushInline (Some load))"
  unfolding tracks_def
proof (intro allI impI)
  fix r :: "(string \<times> string) list load_state" and s
  assume c: "same_core r (s :: 'u load_state)"
  have reset: "tracks load (\<lambda>s'. (True, s'\<lparr>inline_batch := []\<rparr>)) (\<lambda>s'. (True, s'\<lparr>inline_batch := []\<rparr>))"
    unfolding tracks_def by (auto intro!: follows_done simp: same_core_def)
  show "follows load r s (flushInline (Some recorder) r) (flushInline (Some load) s)"
  proof (cases "inline_batch s = []")
    case True
    with c show ?thesis by (auto simp: flushInline_def same_core_def intro!: follows_done)
  next
    case False
    have "inline_batch r = inline_batch s" using c by (simp add: same_core_def)
    with False follows_and_then [OF follows_loadChunk [OF c refl refl] reset] show ?thesis
      by (simp add: flushInline_def)
  qed
qed

lemma tracks_loadAsset:
  "tracks load (loadAsset (Some recorder) a) (loadAsset (Some load) a)"
  unfolding tracks_def
proof (intro allI impI)
  fix r :: "(string \<times> string) list load_state" and s
  assume c: "same_core r (s :: 'u load_state)"
  then have seen: "ls_seen r = ls_seen s" by (simp add: same_core_def)
  have c': "same_core (r\<lparr>ls_seen := X\<rparr>) (s\<lparr>ls_seen := X\<rparr>)" for X
    using c by (simp add: same_core_def)
  show "follows load r s (loadAsset (Some recorder) a r) (loadAsset (Some load) a s)"
    using follows_done [OF c] follows_loadChunk [OF c'] seen by (simp add: loadAsset_def)
qed

lemma tracks_loadKubeWafDefaults:
  "tracks load (loadKubeWafDefaults cat (Some recorder)) (loadKubeWafDefaults cat (Some load))"
  unfolding tracks_def
proof (intro allI impI)
  fix r :: "(string \<times> string) list load_state" and s
  assume c: "same_core r (s :: 'u load_state)"
  then have seen: "ls_seen r = ls_seen s" by (simp add: same_core_def)
  have c': "same_core (r\<lparr>ls_seen := X\<rparr>) (s\<lparr>ls_seen := X\<rparr>)" for X
    using c by (simp add: same_core_def)
  show "follows load r s (loadKubeWafDefaults cat (Some recorder) r)
      (loadKubeWafDefaults cat (Some load) s)"
    using follows_done [OF c] follows_loadChunk [OF c'] seen
    by (cases "lookup cat ''@kubewaf-defaults''") (simp_all add: loadKubeWafDefaults_def Let_def)
qed

text \<open>The glob: a failing asset stops the enumeration and leaves its error.\<close>

lemma foreach_tracks:
  assumes "same_core r s"
  shows "follows load r s
     (let r' = foreach (loadOwaspCrsGlob (Some recorder)) as r in (ls_error r' = [], r'))
     (let s' = foreach (loadOwaspCrsGlob (Some load)) as s in (ls_error s' = [], s'))"
  using assms
proof (induction as arbitrary: r s)
  case Nil
  then show ?case by (auto simp: same_core_def intro!: follows_done)
next
  case (Cons a as)
  show ?case
  proof (cases "asset_path a = ''@owasp_crs/_all.conf''")
    case True
    with Cons show ?thesis by (simp add: loadOwaspCrsGlob_def)
  next
    case False
    let ?F = "\<lambda>r. let r' = foreach (loadOwaspCrsGlob (Some recorder)) as r in (ls_error r' = [], r')"
    let ?G = "\<lambda>s. let s' = foreach (loadOwaspCrsGlob (Some load)) as s in (ls_error s' = [], s')"
    have "tracks load ?F ?G" unfolding tracks_def using Cons.IH by blast
    from follows_and_then [OF tracksD [OF tracks_loadAsset Cons.prems] this]
    have f: "follows load r s (and_then (loadAsset (Some recorder) a r) ?F)
        (and_then (loadAsset (Some load) a s) ?G)" .
    obtain ok s' where s': "loadAsset (Some load) a s = (ok, s')" by (cases "loadAsset (Some load) a s")
    have err: "\<not> ok \<Longrightarrow> ls_error s' \<noteq> []"
      using s' failure_sets_error
      by (auto simp: loadAsset_def loadChunk_def split: if_splits option.splits prod.splits)
    obtain r' where r': "loadAsset (Some recorder) a r = (True, r')" by (simp add: loadAsset_recorder)
    have R: "loadOwaspCrsGlob (Some recorder) a r = (True, r')"
      and L: "loadOwaspCrsGlob (Some load) a s = (ok, s')"
      using False r' s' by (simp_all add: loadOwaspCrsGlob_def)
    from f show ?thesis
      using err by (cases ok) (simp_all add: R L r' s' Let_def)
  qed
qed

lemma tracks_resolveIncludeLoad:
  "tracks load (resolveIncludeLoad cat (Some recorder) target) (resolveIncludeLoad cat (Some load) target)"
  unfolding tracks_def
proof (intro allI impI)
  fix r :: "(string \<times> string) list load_state" and s
  assume c: "same_core r (s :: 'u load_state)"
  show "follows load r s (resolveIncludeLoad cat (Some recorder) target r)
      (resolveIncludeLoad cat (Some load) target s)"
    using tracksD [OF tracks_loadKubeWafDefaults c] tracksD [OF tracks_loadAsset c]
      foreach_tracks [OF c, of "owasp_assets cat"]
    unfolding resolveIncludeLoad_def
    by (simp add: follows_fail split: option.splits)
qed

lemma same_core_append:
  "same_core r s \<Longrightarrow> same_core ((append_line l r)\<lparr>pending_chain := p\<rparr>) ((append_line l s)\<lparr>pending_chain := p\<rparr>)"
  by (simp add: same_core_def append_line_def)

lemma follows_base:
  "follows load r2 s2 R L \<Longrightarrow> ls_user r2 = ls_user r \<Longrightarrow> ls_user s2 = ls_user s \<Longrightarrow> follows load r s R L"
  unfolding follows_def by simp

text \<open>The end of an iteration: append the line, then flush or not.\<close>

lemma follows_join:
  assumes c: "same_core r s" and b: "b r = c s"
  shows "follows load r s
    (let s2 = (append_line l r)\<lparr>pending_chain := p\<rparr>
     in if b r then flushInline (Some recorder) s2 else (True, s2))
    (let s2 = (append_line l s)\<lparr>pending_chain := p\<rparr>
     in if c s then flushInline (Some load) s2 else (True, s2))"
proof -
  note c2 = same_core_append [OF c, where l = l and p = p]
  from follows_base [OF tracksD [OF tracks_flushInline c2]] follows_done [OF c2] b
  show ?thesis by (simp add: Let_def append_line_def)
qed

lemma core_eqs:
  assumes "same_core r s"
  shows "pending_chain r = pending_chain s" "inline_batch r = inline_batch s"
  using assms by (simp_all add: same_core_def)

lemma follows_opt_flush:
  assumes "same_core r s"
  shows "follows load r s (if b then flushInline (Some recorder) r else (True, r))
    (if b then flushInline (Some load) s else (True, s))"
  using tracksD [OF tracks_flushInline assms] follows_done [OF assms] by simp

lemma tracks_apply_line:
  "tracks load (apply_line cat (Some recorder) raw) (apply_line cat (Some load) raw)"
  unfolding tracks_def
proof (intro allI impI)
  fix r :: "(string \<times> string) list load_state" and s
  assume c: "same_core r (s :: 'u load_state)"
  let ?l = "trim raw"
  consider (skip) "?l = [] \<or> starts_with ?l ''#''"
    | (inc) "\<not> (?l = [] \<or> starts_with ?l ''#'')" "starts_with ?l ''Include ''"
    | (phrase) "\<not> (?l = [] \<or> starts_with ?l ''#'')" "\<not> starts_with ?l ''Include ''" "is_file_phrase_op ?l"
    | (other) "\<not> (?l = [] \<or> starts_with ?l ''#'')" "\<not> starts_with ?l ''Include ''" "\<not> is_file_phrase_op ?l"
    by blast
  then show "follows load r s (apply_line cat (Some recorder) raw r) (apply_line cat (Some load) raw s)"
  proof cases
    case skip
    with follows_done [OF c] show ?thesis by (simp add: apply_line_def Let_def)
  next
    case inc
    let ?r = "if pending_chain r then r\<lparr>pending_chain := False\<rparr> else r"
    let ?s = "if pending_chain s then s\<lparr>pending_chain := False\<rparr> else s"
    have c': "same_core ?r ?s" using c by (simp add: same_core_def)
    from follows_and_then [OF tracksD [OF tracks_flushInline c'] tracks_resolveIncludeLoad]
    have "follows load r s
      (and_then (flushInline (Some recorder) ?r) (resolveIncludeLoad cat (Some recorder) (trim (drop 8 ?l))))
      (and_then (flushInline (Some load) ?s) (resolveIncludeLoad cat (Some load) (trim (drop 8 ?l))))"
      by (rule follows_base) simp_all
    with inc show ?thesis by (simp only: apply_line_def Let_def if_False if_True)
  next
    case phrase
    let ?t = "\<lambda>s1. let s2 = (append_line ?l s1)\<lparr>pending_chain := line_requests_chain ?l\<rparr>
      in if \<not> line_requests_chain ?l then flushInline (Some load) s2 else (True, s2)"
    let ?u = "\<lambda>s1. let s2 = (append_line ?l s1)\<lparr>pending_chain := line_requests_chain ?l\<rparr>
      in if \<not> line_requests_chain ?l then flushInline (Some recorder) s2 else (True, s2)"
    have t: "tracks load ?u ?t"
      unfolding tracks_def
      using follows_join [where b = "\<lambda>_. \<not> line_requests_chain ?l" and c = "\<lambda>_. \<not> line_requests_chain ?l"] by blast
    from follows_and_then [OF follows_opt_flush [OF c, of "\<not> pending_chain s"] t] phrase core_eqs [OF c]
    show ?thesis
      by (cases "pending_chain s"; cases "line_requests_chain ?l") (simp_all add: apply_line_def Let_def)
  next
    case other
    define parent where "parent = (\<not> pending_chain s \<and> line_requests_chain ?l)"
    define full where "full = (inline_batch s \<noteq> [] \<and> \<not> pending_chain s \<and>
      kMaxInlineChunkBytes < length (inline_batch s) + length ?l + 1)"
    let ?p = "\<lambda>s1. (pending_chain s1 \<or> parent) \<and> \<not> line_requests_chain ?l \<or>
      \<not> line_requests_chain ?l \<and> kMaxInlineChunkBytes \<le> length (inline_batch s1) + length ?l + 1"
    let ?q = "\<lambda>s1. (pending_chain s1 \<or> parent) \<and> \<not> line_requests_chain ?l \<or>
      \<not> line_requests_chain ?l \<and> kMaxInlineChunkBytes \<le> length (inline_batch s1) + length ?l + 1"
    have t: "tracks load
      (\<lambda>s1. let s2 = (append_line ?l s1)\<lparr>pending_chain := line_requests_chain ?l\<rparr>
         in if ?p s1 then flushInline (Some recorder) s2 else (True, s2))
      (\<lambda>s1. let s2 = (append_line ?l s1)\<lparr>pending_chain := line_requests_chain ?l\<rparr>
         in if ?q s1 then flushInline (Some load) s2 else (True, s2))"
      unfolding tracks_def
      by (intro allI impI follows_join) (simp_all add: core_eqs)
    have step_eq: "apply_line cat loader raw st =
      and_then (if parent \<or> full then flushInline loader st else (True, st))
       (\<lambda>s1. let s2 = (append_line ?l s1)\<lparr>pending_chain := line_requests_chain ?l\<rparr>
         in if (pending_chain s1 \<or> parent) \<and> \<not> line_requests_chain ?l \<or>
              \<not> line_requests_chain ?l \<and> kMaxInlineChunkBytes \<le> length (inline_batch s1) + length ?l + 1
            then flushInline loader s2 else (True, s2))"
      if "pending_chain st = pending_chain s" "inline_batch st = inline_batch s"
      for loader and st :: "'v load_state"
      using other that
      by (auto simp: apply_line_def Let_def parent_def full_def append_line_def
          intro!: arg_cong2 [where f = and_then])
    show ?thesis
      using follows_and_then [OF follows_opt_flush [OF c, of "parent \<or> full"] t]
      by (simp only: step_eq core_eqs [OF c] refl)
  qed
qed

lemma tracks_apply_lines:
  "tracks load (apply_lines cat (Some recorder) ls) (apply_lines cat (Some load) ls)"
proof (induction ls)
  case Nil
  then show ?case using tracks_flushInline by (simp add: tracks_def)
next
  case (Cons l ls)
  from tracks_and_then [OF tracks_apply_line Cons] show ?case by (simp add: tracks_def)
qed

text \<open>
  Loading with any loader that honours the contract: run it over the chunks the recorder saw;
  if all succeed, the outcome and the error are the recorder's.
\<close>

lemma apply_directives_follows:
  "apply_directives cat (Some load) u [] ds =
     (case apply_directives cat (Some recorder) [] [] ds of (ok, chunks, err) \<Rightarrow>
        outcome ok err (run_chunks load chunks u))"
proof (cases ds)
  case (Inl e)
  then show ?thesis by (simp add: apply_directives_def outcome_def)
next
  case (Inr directives)
  let ?ls = "concat (map splitDirectiveLines directives)"
  have "same_core (load_start [] []) (load_start u [])"
    by (simp add: same_core_def load_start_def)
  from tracksD [OF tracks_apply_lines this, of cat ?ls]
  show ?thesis
    unfolding follows_def Inr apply_directives_def outcome_def
    by (auto simp: load_start_def same_core_def split: prod.splits)
qed

end

interpretation recording: chunk_loader recorder
  by unfold_locales (auto simp: recorder_def)

end
