(* ===== verification/Rule_Plan.thy ===== *)
theory Rule_Plan
  imports Rule_Contracts
begin

text \<open>
  The specification of a configuration: the plan of its lines. Loading and expanding both
  implement the plan; includes resolve once.
\<close>

section \<open>Include resolvers\<close>

locale include_resolver =
  fixes resolve :: "string \<Rightarrow> 's \<Rightarrow> bool \<times> 's"
    and seen :: "'s \<Rightarrow> string set"
    and clean :: "'s \<Rightarrow> bool"
    and denotes :: "string \<Rightarrow> string set option"
  assumes known: "clean s \<Longrightarrow> denotes t = Some P \<Longrightarrow> resolve t s = (True, s') \<Longrightarrow>
      clean s' \<and> seen s' = seen s \<union> P"
    and unknown: "clean s \<Longrightarrow> denotes t = None \<Longrightarrow> \<not> fst (resolve t s)"
    and again: "clean s \<Longrightarrow> denotes t = Some P \<Longrightarrow> P \<subseteq> seen s \<Longrightarrow> resolve t s = (True, s)"
begin

fun resolve_all :: "string list \<Rightarrow> 's \<Rightarrow> bool \<times> 's" where
  "resolve_all [] s = (True, s)"
| "resolve_all (t # ts) s = and_then (resolve t s) (resolve_all ts)"

lemma resolve_all_seen:
  "clean s \<Longrightarrow> resolve_all ts s = (True, s') \<Longrightarrow>
   clean s' \<and> seen s \<subseteq> seen s' \<and> (\<forall>t \<in> set ts. \<exists>P. denotes t = Some P \<and> P \<subseteq> seen s')"
proof (induction ts arbitrary: s)
  case (Cons t ts)
  obtain ok s1 where r: "resolve t s = (ok, s1)" by (cases "resolve t s")
  with Cons.prems have ok: "ok" "resolve_all ts s1 = (True, s')"
    by (auto simp: and_then_def split: if_splits)
  obtain P where P: "denotes t = Some P"
    using unknown [OF Cons.prems(1), of t] r ok by (cases "denotes t") auto
  with known [OF Cons.prems(1) P] r ok have "clean s1" "seen s1 = seen s \<union> P" by auto
  with Cons.IH [OF _ ok(2)] P show ?case by auto
qed simp

text \<open>Targets that were included before are not included again.\<close>

lemma resolve_all_again:
  assumes "clean s" "resolve_all ts s = (True, s')" "set us \<subseteq> set ts"
  shows "resolve_all us s' = (True, s')"
proof -
  from resolve_all_seen [OF assms(1,2)]
  have c: "clean s'" and P: "\<forall>t \<in> set ts. \<exists>P. denotes t = Some P \<and> P \<subseteq> seen s'" by auto
  from assms(3) show ?thesis
  proof (induction us)
    case (Cons u us)
    with P obtain Q where "denotes u = Some Q" "Q \<subseteq> seen s'" by auto
    with again [OF c] Cons show ?case by simp
  qed simp
qed

end

definition target_paths :: "catalog \<Rightarrow> string \<Rightarrow> string set option" where
  "target_paths cat target = map_option paths_of (include_assets cat target)"

lemma follows_ok:
  "follows load r s R L \<Longrightarrow> fst L \<Longrightarrow> fst R \<and> same_core (snd R) (snd L)"
  unfolding follows_def by blast

text \<open>Nothing is loaded when every path of the target was seen.\<close>

lemma foreach_seen:
  "paths_of (filter (\<lambda>a. asset_path a \<noteq> ''@owasp_crs/_all.conf'') as) \<subseteq> ls_seen s \<Longrightarrow>
   foreach (loadOwaspCrsGlob loader) as s = s"
  by (induction as) (auto simp: loadOwaspCrsGlob_def loadAsset_def split: if_splits)

lemma resolveIncludeLoad_again:
  assumes "ls_error s = []" "target_paths cat t = Some P" "P \<subseteq> ls_seen s"
  shows "resolveIncludeLoad cat loader t s = (True, s)"
proof -
  have a: "asset_path a \<in> ls_seen s \<Longrightarrow> loadAsset loader a s = (True, s)" for a
    by (simp add: loadAsset_def)
  consider "t = ''@kubewaf-defaults''" | "t = ''@owasp_crs/*.conf''"
    | "t \<noteq> ''@kubewaf-defaults''" "t \<noteq> ''@owasp_crs/*.conf''"
    by blast
  then show ?thesis
  proof cases
    case 1
    with assms have "''@kubewaf-defaults'' \<in> ls_seen s"
      by (auto simp: target_paths_def include_assets_def builtin_defaults_def dest: lookup_path
          split: option.splits)
    with 1 show ?thesis by (simp add: resolveIncludeLoad_def loadKubeWafDefaults_def)
  next
    case 2
    with assms foreach_seen [of "owasp_assets cat" s loader] show ?thesis
      by (auto simp: resolveIncludeLoad_def target_paths_def include_assets_def Let_def split: if_splits)
  next
    case 3
    then have inc: "include_assets cat t =
        (if t \<in> {''@demo-conf'', ''@ftw-conf'', ''@crs-setup-conf''} \<or> starts_with t ''@owasp_crs/''
         then map_option (\<lambda>a. [a]) (lookup cat t) else None)"
      by (simp only: include_assets_def if_False)
    have t: "t \<in> {''@demo-conf'', ''@ftw-conf'', ''@crs-setup-conf''} \<or> starts_with t ''@owasp_crs/''"
      (is ?T)
    proof (rule ccontr)
      assume "\<not> ?T"
      with assms(2) show False unfolding target_paths_def inc by (simp only: if_not_P) simp
    qed
    with assms(2) obtain b where b: "lookup cat t = Some b" "P = {asset_path b}"
      unfolding target_paths_def inc if_P [OF t] by auto
    with assms(3) a have l: "loadAsset loader b s = (True, s)" by simp
    from t 3 have "resolveIncludeLoad cat loader t s = (case lookup cat t of
          None \<Rightarrow> (False, s\<lparr>ls_error := include_error cat t\<rparr>)
        | Some b \<Rightarrow> loadAsset loader b s)"
      unfolding resolveIncludeLoad_def include_error_def
      by (elim disjE insertE) (simp_all split: option.splits)
    with b l show ?thesis by simp
  qed
qed

sublocale chunk_loader \<subseteq> incs: include_resolver "resolveIncludeLoad cat (Some load)" ls_seen
  "\<lambda>s. ls_error s = []" "target_paths cat" for cat
proof unfold_locales
  fix s s' :: "'u load_state" and t P
  assume e: "ls_error s = []"
  let ?r = "\<lparr>ls_seen = ls_seen s, ls_user = [], ls_error = [], inline_batch = inline_batch s,
    pending_chain = pending_chain s\<rparr> :: (string \<times> string) list load_state"
  have c: "same_core ?r s" using e by (simp add: same_core_def)
  from tracksD [OF tracks_resolveIncludeLoad c, of cat t]
  have f: "follows load ?r s (resolveIncludeLoad cat (Some recorder) t ?r)
      (resolveIncludeLoad cat (Some load) t s)" .
  have r: "resolveIncludeLoad cat (Some recorder) t ?r = (case include_assets cat t of
        None \<Rightarrow> (False, ?r\<lparr>ls_error := include_error cat t\<rparr>)
      | Some as \<Rightarrow> (True, ?r\<lparr>ls_seen := ls_seen s \<union> paths_of as,
          ls_user := asset_chunks (fresh_assets (ls_seen s) as)\<rparr>))"
    by (subst resolveIncludeLoad_recorder) (simp_all split: option.splits)
  show "ls_error s' = [] \<and> ls_seen s' = ls_seen s \<union> P"
    if t: "target_paths cat t = Some P" and ok: "resolveIncludeLoad cat (Some load) t s = (True, s')"
  proof -
    from t obtain as where as: "include_assets cat t = Some as" "P = paths_of as"
      unfolding target_paths_def by blast
    have "same_core (snd (resolveIncludeLoad cat (Some recorder) t ?r)) s'"
      using follows_ok [OF f] unfolding ok fst_conv snd_conv by blast
    then show ?thesis unfolding r as(1) option.case snd_conv as(2) by (simp add: same_core_def)
  qed
  show "target_paths cat t = None \<Longrightarrow> \<not> fst (resolveIncludeLoad cat (Some load) t s)"
  proof
    assume "target_paths cat t = None"
    then have "\<not> fst (resolveIncludeLoad cat (Some recorder) t ?r)"
      by (simp only: r target_paths_def option.map_disc_iff option.case fst_conv not_False_eq_True)
    moreover assume "fst (resolveIncludeLoad cat (Some load) t s)"
    ultimately show False using follows_ok [OF f] by blast
  qed
  show "target_paths cat t = Some P \<Longrightarrow> P \<subseteq> ls_seen s \<Longrightarrow>
      resolveIncludeLoad cat (Some load) t s = (True, s)"
    using resolveIncludeLoad_again [OF e] .
qed

interpretation expanding: include_resolver "resolveIncludeExpand cat" ex_seen
  "\<lambda>s. ex_error s = []" "target_paths cat" for cat
  by unfold_locales
    (auto simp: resolveIncludeExpand_spec target_paths_def fresh_assets_seen Un_absorb2 split: option.splits)

section \<open>Plans\<close>

datatype plan_item = Line string | Assets "asset list"

fun plan :: "catalog \<Rightarrow> string set \<Rightarrow> string list \<Rightarrow> plan_item list \<times> string option" where
  "plan cat seen [] = ([], None)"
| "plan cat seen (raw # ls) =
     (let line = trim raw in
      if line = [] \<or> starts_with line ''#'' then plan cat seen ls
      else if is_include line then
        (case include_assets cat (trim (drop 8 line)) of
           None \<Rightarrow> ([], Some (include_error cat (trim (drop 8 line))))
         | Some as \<Rightarrow> apfst ((#) (Assets (fresh_assets seen as))) (plan cat (seen \<union> paths_of as) ls))
      else apfst ((#) (Line line)) (plan cat seen ls))"

fun item_loaded :: "plan_item \<Rightarrow> string" where
  "item_loaded (Line l) = l @ [LF]"
| "item_loaded (Assets as) = concat (map appended_data as)"

fun item_expanded :: "catalog \<Rightarrow> plan_item \<Rightarrow> string" where
  "item_expanded cat (Line l) = l @ [LF]"
| "item_expanded cat (Assets as) = expanded cat as"

definition loaded_text :: "(string \<times> string) list load_state \<Rightarrow> string" where
  "loaded_text s = concat (map snd (ls_user s)) @ inline_batch s"

lemma loaded_text_flush:
  "fst (flushInline (Some recorder) s)"
  "loaded_text (snd (flushInline (Some recorder) s)) = loaded_text s"
  "inline_batch (snd (flushInline (Some recorder) s)) = []"
  "ls_seen (snd (flushInline (Some recorder) s)) = ls_seen s"
  "ls_error (snd (flushInline (Some recorder) s)) = ls_error s"
  by (simp_all add: flush_recorder loaded_text_def)

lemma flush_recorder_E:
  obtains s' where "flushInline (Some recorder) s = (True, s')" "loaded_text s' = loaded_text s"
    "inline_batch s' = []" "ls_seen s' = ls_seen s" "ls_error s' = ls_error s"
  using loaded_text_flush [of s] by (metis prod.collapse)

lemma opt_flush_E:
  obtains s' where "(if b then flushInline (Some recorder) s else (True, s)) = (True, s')"
    "loaded_text s' = loaded_text s" "ls_seen s' = ls_seen s" "ls_error s' = ls_error s"
proof (cases b)
  case True
  then show ?thesis using flush_recorder_E [of s] that by auto
next
  case False
  then show ?thesis using that by auto
qed

text \<open>A directive line is added to the loaded text, whatever is flushed around it.\<close>

definition adds :: "(string \<times> string) list load_state \<Rightarrow> string \<Rightarrow>
    bool \<times> (string \<times> string) list load_state \<Rightarrow> bool" where
  "adds s t r \<longleftrightarrow> fst r \<and> loaded_text (snd r) = loaded_text s @ t \<and>
     ls_seen (snd r) = ls_seen s \<and> ls_error (snd r) = ls_error s"

lemma adds_join:
  "adds s (l @ [LF]) (let s2 = (append_line l s)\<lparr>pending_chain := p\<rparr>
     in if b then flushInline (Some recorder) s2 else (True, s2))"
  by (simp add: adds_def Let_def loaded_text_flush) (simp add: loaded_text_def append_line_def)

lemma adds_after:
  assumes "adds s1 t r" "loaded_text s1 = loaded_text s" "ls_seen s1 = ls_seen s" "ls_error s1 = ls_error s"
  shows "adds s t r"
  using assms by (simp add: adds_def)

lemma apply_line_adds:
  assumes "directive (trim raw)"
  shows "adds s (trim raw @ [LF]) (apply_line cat (Some recorder) raw s)"
proof -
  let ?l = "trim raw"
  define parent where "parent = (\<not> pending_chain s \<and> line_requests_chain ?l)"
  define first where "first = (if is_file_phrase_op ?l then \<not> pending_chain s
    else parent \<or> inline_batch s \<noteq> [] \<and> \<not> pending_chain s \<and>
      kMaxInlineChunkBytes < length (inline_batch s) + length ?l + 1)"
  obtain s1 where s1: "(if first then flushInline (Some recorder) s else (True, s)) = (True, s1)"
    "loaded_text s1 = loaded_text s" "ls_seen s1 = ls_seen s" "ls_error s1 = ls_error s"
    by (rule opt_flush_E)
  define last where "last = (if is_file_phrase_op ?l then \<not> line_requests_chain ?l
    else (pending_chain s1 \<or> parent) \<and> \<not> line_requests_chain ?l \<or> \<not> line_requests_chain ?l \<and>
      kMaxInlineChunkBytes \<le> length (inline_batch s1) + length ?l + 1)"
  have "apply_line cat (Some recorder) raw s =
      (let s2 = (append_line ?l s1)\<lparr>pending_chain := line_requests_chain ?l\<rparr>
       in if last then flushInline (Some recorder) s2 else (True, s2))"
    using assms s1(1) unfolding first_def
    by (auto simp: apply_line_def directive_def is_include_def Let_def parent_def last_def
        append_line_def split: if_splits)
  with adds_join adds_after s1(2-4) show ?thesis by metis
qed

lemma apply_line_include:
  assumes "is_include (trim raw)" "trim raw \<noteq> []" "\<not> starts_with (trim raw) ''#''" "ls_error s = []"
  shows "\<exists>s'. ls_seen s' = ls_seen s \<and> ls_error s' = [] \<and> inline_batch s' = [] \<and>
    loaded_text s' = loaded_text s \<and>
    apply_line cat (Some recorder) raw s =
      resolveIncludeLoad cat (Some recorder) (trim (drop 8 (trim raw))) s'"
proof -
  let ?s = "if pending_chain s then s\<lparr>pending_chain := False\<rparr> else s"
  obtain s' where s': "flushInline (Some recorder) ?s = (True, s')" "loaded_text s' = loaded_text ?s"
    "inline_batch s' = []" "ls_seen s' = ls_seen ?s" "ls_error s' = ls_error ?s"
    by (rule flush_recorder_E)
  then have "apply_line cat (Some recorder) raw s =
      resolveIncludeLoad cat (Some recorder) (trim (drop 8 (trim raw))) s'"
    using assms by (simp add: apply_line_def is_include_def Let_def)
  moreover have "loaded_text ?s = loaded_text s" "ls_seen ?s = ls_seen s" "ls_error ?s = ls_error s"
    by (simp_all add: loaded_text_def)
  ultimately show ?thesis using s' assms(4) by metis
qed

lemma asset_chunks_text: "concat (map snd (asset_chunks as)) = concat (map appended_data as)"
  by (induction as) auto

text \<open>Loading implements the plan.\<close>

lemma apply_lines_plan:
  assumes "ls_error s = []"
  shows "case apply_lines cat (Some recorder) ls s of (ok, s') \<Rightarrow>
    (case plan cat (ls_seen s) ls of (items, err) \<Rightarrow>
      loaded_text s' = loaded_text s @ concat (map item_loaded items) \<and>
      inline_batch s' = [] \<and> ok = (err = None) \<and>
      ls_error s' = (case err of None \<Rightarrow> [] | Some e \<Rightarrow> e))"
  using assms
proof (induction ls arbitrary: s)
  case Nil
  obtain s' where "flushInline (Some recorder) s = (True, s')" "loaded_text s' = loaded_text s"
    "inline_batch s' = []" "ls_error s' = ls_error s"
    by (rule flush_recorder_E)
  with Nil show ?case by simp
next
  case (Cons raw ls)
  consider (skip) "trim raw = [] \<or> starts_with (trim raw) ''#''"
    | (inc) "trim raw \<noteq> []" "\<not> starts_with (trim raw) ''#''" "is_include (trim raw)"
    | (dir) "directive (trim raw)"
    by (auto simp: directive_def)
  then show ?case
  proof cases
    case skip
    then have "apply_line cat (Some recorder) raw s = (True, s)"
      by (simp add: apply_line_def Let_def)
    with Cons skip show ?thesis by simp
  next
    case inc
    let ?t = "trim (drop 8 (trim raw))"
    from apply_line_include [OF inc(3,1,2) Cons.prems, of cat] obtain s' where
      s': "ls_seen s' = ls_seen s" "ls_error s' = []" "inline_batch s' = []"
        "loaded_text s' = loaded_text s"
        "apply_line cat (Some recorder) raw s = resolveIncludeLoad cat (Some recorder) ?t s'"
      by blast
    show ?thesis
    proof (cases "include_assets cat ?t")
      case None
      with s' inc show ?thesis
        by (simp add: resolveIncludeLoad_recorder loaded_text_def Let_def)
    next
      case (Some as)
      let ?s2 = "s'\<lparr>ls_seen := ls_seen s' \<union> paths_of as,
        ls_user := ls_user s' @ asset_chunks (fresh_assets (ls_seen s') as)\<rparr>"
      have "loaded_text ?s2 = loaded_text s @ concat (map appended_data (fresh_assets (ls_seen s) as))"
        using s' by (simp add: loaded_text_def asset_chunks_text)
      with Cons.IH [of ?s2] s' inc Some show ?thesis
        by (auto simp: resolveIncludeLoad_recorder Let_def split: prod.splits)
    qed
  next
    case dir
    obtain s' where "apply_line cat (Some recorder) raw s = (True, s')"
      "loaded_text s' = loaded_text s @ trim raw @ [LF]" "ls_seen s' = ls_seen s" "ls_error s' = []"
      using apply_line_adds [OF dir, of s cat] Cons.prems unfolding adds_def by (metis prod.collapse)
    with Cons.IH [of s'] dir show ?thesis
      by (auto simp: directive_def Let_def split: prod.splits)
  qed
qed

text \<open>Expanding implements the same plan.\<close>

lemma expand_lines_plan:
  assumes "ex_error s = []"
  shows "case expand_lines cat ls s of (ok, s') \<Rightarrow>
    (case plan cat (ex_seen s) ls of (items, err) \<Rightarrow>
      ex_out s' = ex_out s @ concat (map (item_expanded cat) items) \<and>
      ok = (err = None \<and> ex_out s' \<noteq> []) \<and>
      ex_error s' = (case err of None \<Rightarrow> [] | Some e \<Rightarrow> e))"
  using assms
proof (induction ls arbitrary: s)
  case Nil
  then show ?case by simp
next
  case (Cons raw ls)
  consider (skip) "trim raw = [] \<or> starts_with (trim raw) ''#''"
    | (inc) "trim raw \<noteq> []" "\<not> starts_with (trim raw) ''#''" "is_include (trim raw)"
    | (dir) "directive (trim raw)"
    by (auto simp: directive_def)
  then show ?case
  proof cases
    case skip
    with Cons show ?thesis by simp
  next
    case inc
    let ?t = "trim (drop 8 (trim raw))"
    show ?thesis
    proof (cases "include_assets cat ?t")
      case None
      with inc Cons.prems show ?thesis
        by (simp add: resolveIncludeExpand_spec is_include_def Let_def)
    next
      case (Some as)
      let ?s2 = "s\<lparr>ex_seen := ex_seen s \<union> paths_of as,
        ex_out := ex_out s @ expanded cat (fresh_assets (ex_seen s) as)\<rparr>"
      from Cons.IH [of ?s2] Cons.prems inc Some show ?thesis
        by (auto simp: resolveIncludeExpand_spec is_include_def Let_def split: prod.splits)
    qed
  next
    case dir
    with Cons.IH [of "s\<lparr>ex_out := ex_out s @ trim raw @ [LF]\<rparr>"] Cons.prems show ?thesis
      by (auto simp: directive_def is_include_def Let_def split: prod.splits)
  qed
qed

section \<open>Properties\<close>

definition include_targets :: "string list \<Rightarrow> string list" where
  "include_targets ls = map (\<lambda>l. trim (drop 8 l)) (filter is_include (accepted_lines ls))"

lemma plan_error:
  "snd (plan cat seen ls) = map_option (include_error cat)
     (find (\<lambda>t. include_assets cat t = None) (include_targets ls))"
proof (induction ls arbitrary: seen)
  case Nil
  then show ?case by (simp add: include_targets_def accepted_lines_def)
next
  case (Cons raw ls)
  have split_: "include_targets (raw # ls) =
      (if trim raw \<noteq> [] \<and> \<not> starts_with (trim raw) ''#'' \<and> is_include (trim raw)
       then trim (drop 8 (trim raw)) # include_targets ls else include_targets ls)"
    by (simp add: include_targets_def accepted_lines_def)
  show ?case
    unfolding split_
    by (cases "include_assets cat (trim (drop 8 (trim raw)))") (simp_all add: Let_def Cons)
qed

lemma apply_directives_plan:
  obtains chunks where "apply_directives cat (Some recorder) [] [] (Inr ds) =
      (snd (plan cat {} (concat (map splitDirectiveLines ds))) = None, chunks,
       case snd (plan cat {} (concat (map splitDirectiveLines ds))) of None \<Rightarrow> [] | Some e \<Rightarrow> e)"
    "concat (map snd chunks) =
       concat (map item_loaded (fst (plan cat {} (concat (map splitDirectiveLines ds)))))"
proof -
  let ?ls = "concat (map splitDirectiveLines ds)"
  obtain items e where p: "plan cat {} ?ls = (items, e)" by (cases "plan cat {} ?ls")
  obtain ok s where a: "apply_lines cat (Some recorder) ?ls (load_start [] []) = (ok, s)"
    by (cases "apply_lines cat (Some recorder) ?ls (load_start [] [])")
  have "ls_error (load_start ([] :: (string \<times> string) list) []) = []" by (simp add: load_start_def)
  from apply_lines_plan [OF this, of cat ?ls] a p
  have "loaded_text s = concat (map item_loaded items)" "inline_batch s = []" "ok = (e = None)"
    "ls_error s = (case e of None \<Rightarrow> [] | Some e \<Rightarrow> e)"
    by (auto simp: load_start_def loaded_text_def)
  then show ?thesis
    using that [of "ls_user s"] a p by (simp add: apply_directives_def loaded_text_def)
qed

text \<open>
  C3: loading a directive list hands the loader, in order and
  completely, the text its plan says: every directive line as it stands and every included
  asset once, at its first include. The load succeeds exactly when the plan has no error and
  reports the plan's error otherwise. Batching and flushing lose, repeat and reorder nothing.
\<close>

theorem load_implements_plan:
  "case plan cat {} (concat (map splitDirectiveLines ds)) of (items, err) \<Rightarrow>
     \<exists>chunks. apply_directives cat (Some recorder) [] [] (Inr ds) =
         (err = None, chunks, case err of None \<Rightarrow> [] | Some e \<Rightarrow> e) \<and>
       concat (map snd chunks) = concat (map item_loaded items)"
proof -
  obtain items e where p: "plan cat {} (concat (map splitDirectiveLines ds)) = (items, e)"
    by (cases "plan cat {} (concat (map splitDirectiveLines ds))")
  from apply_directives_plan [of cat ds] show ?thesis unfolding p prod.case fst_conv snd_conv by blast
qed

lemma expand_plan:
  "case plan cat {} ds of (items, err) \<Rightarrow>
     let rules = concat (map (item_expanded cat) items)
     in expand_directives cat rules_out (Inr ds) =
          (err = None \<and> rules \<noteq> [], rules, case err of None \<Rightarrow> [] | Some e \<Rightarrow> e)"
proof -
  let ?s = "\<lparr>ex_seen = {}, ex_out = [], ex_error = []\<rparr>"
  obtain items e where p: "plan cat {} ds = (items, e)" by (cases "plan cat {} ds")
  obtain ok s where a: "expand_lines cat ds ?s = (ok, s)" by (cases "expand_lines cat ds ?s")
  from expand_lines_plan [of ?s cat ds] a p show ?thesis
    by (simp add: expand_directives_def Let_def)
qed

lemma plan_flat:
  "list_all (\<lambda>d. LF \<notin> set d) ds \<Longrightarrow> plan cat seen (concat (map splitDirectiveLines ds)) = plan cat seen ds"
proof (induction ds arbitrary: seen)
  case (Cons d ds)
  then have d: "splitDirectiveLines d = (if trim d = [] then [] else [trim d])"
    by (simp add: splitDirectiveLines_spec split_lines_single)
  have IH: "plan cat seen (concat (map splitDirectiveLines ds)) = plan cat seen ds" for seen
    using Cons by simp
  show ?case
  proof (cases "include_assets cat (trim (drop 8 (trim d)))")
    case None
    then show ?thesis by (simp add: d IH Let_def)
  next
    case (Some as)
    then show ?thesis by (simp add: d IH Let_def)
  qed
qed simp

text \<open>
  C30: loading a directive list chunk by chunk and expanding it into
  one text are two implementations of one plan, when every item of the list is a single line: the
  same directive lines and the same assets in the same order, failure at the same include with
  the same error. The expanded text differs only in a newline after each asset (the
  built-in defaults have their own), and expanding also fails on an empty result. Items of several lines are outside of this: the expansion does not
  split them (\<open>comment_item_lost\<close>).
\<close>

theorem expand_implements_plan:
  assumes "list_all (\<lambda>d. LF \<notin> set d) ds"
  shows "case plan cat {} ds of (items, err) \<Rightarrow>
     let rules = concat (map (item_expanded cat) items); msg = (case err of None \<Rightarrow> [] | Some e \<Rightarrow> e)
     in (\<exists>chunks. apply_directives cat (Some recorder) [] [] (Inr ds) = (err = None, chunks, msg) \<and>
          concat (map snd chunks) = concat (map item_loaded items)) \<and>
        expand_directives cat rules_out (Inr ds) = (err = None \<and> rules \<noteq> [], rules, msg)"
proof -
  obtain items e where p: "plan cat {} ds = (items, e)" by (cases "plan cat {} ds")
  from apply_directives_plan [of cat ds] obtain chunks where
    "apply_directives cat (Some recorder) [] [] (Inr ds) = (e = None, chunks, case e of None \<Rightarrow> [] | Some e \<Rightarrow> e)"
    "concat (map snd chunks) = concat (map item_loaded items)"
    unfolding plan_flat [OF assms] p fst_conv snd_conv by blast
  with expand_plan [where cat = cat and ds = ds and rules_out = rules_out] show ?thesis unfolding p Let_def prod.case by blast
qed

lemma expand_implements_plan_witness:
  "expand_directives \<lparr>catalog_mode = None, catalog_assets = [\<lparr>asset_path = ''@demo-conf'', asset_data = Some ''SecAction x''\<rparr>]\<rparr>
     [] (Inr [''Include @demo-conf'', ''SecB'', ''Include @ftw-conf'']) =
   (False, ''SecAction x'' @ [LF] @ ''SecB'' @ [LF], ''unknown virtual include: @ftw-conf'') \<and>
   \<not> fst (apply_directives \<lparr>catalog_mode = None, catalog_assets = [\<lparr>asset_path = ''@demo-conf'', asset_data = Some ''SecAction x''\<rparr>]\<rparr>
     (Some recorder) [] [] (Inr [''Include @demo-conf'', ''SecB'', ''Include @ftw-conf'']))"
proof -
  let ?ds = "[''Include @demo-conf'', ''SecB'', ''Include @ftw-conf'']"
  let ?cat = "\<lparr>catalog_mode = None, catalog_assets = [\<lparr>asset_path = ''@demo-conf'', asset_data = Some ''SecAction x''\<rparr>]\<rparr>"
  let ?a = "\<lparr>asset_path = ''@demo-conf'', asset_data = Some ''SecAction x''\<rparr>"
  have p: "plan ?cat {} ?ds = ([Assets [?a], Line ''SecB''], Some ''unknown virtual include: @ftw-conf'')"
    by (simp add: trim_def is_space_def is_include_def include_assets_def lookup_def include_error_def)
  have x: "concat (map (item_expanded ?cat) [Assets [?a], Line ''SecB'']) = ''SecAction x'' @ [LF] @ ''SecB'' @ [LF]"
    by (simp add: expanded_asset_def appended_data_def)
  have "list_all (\<lambda>d. LF \<notin> set d) ?ds" by simp
  from expand_implements_plan [OF this, where cat = ?cat and rules_out = "[]"] show ?thesis
    unfolding p prod.case x Let_def by auto
qed

text \<open>
  The expansion takes an item that starts with a comment line for a comment, and drops the rule
  behind it, which loading keeps.
\<close>

lemma comment_item_lost:
  "plan cat {} (concat (map splitDirectiveLines [''# c'' @ [LF] @ ''SecRule A''])) = ([Line ''SecRule A''], None)"
  "expand_directives cat rules_out (Inr [''# c'' @ [LF] @ ''SecRule A'']) = (False, [], [])"
  by (simp_all add: splitDirectiveLines_spec is_include_def trim_def is_space_def expand_directives_def)



section \<open>Which includes can be resolved\<close>

text \<open>
  What an include can name: the defaults, which every build carries; the demo, test harness
  and CRS setup files, if the catalog has an asset of that name; a CRS rule file of
  the catalog; all of the CRS, if the catalog has any file of it. Nothing else: data files
  (\<^verbatim>\<open>@crs-data/\<close>) are not includable, even those the catalog has.
\<close>

definition resolvable :: "catalog \<Rightarrow> string \<Rightarrow> bool" where
  "resolvable cat t \<longleftrightarrow> t = ''@kubewaf-defaults'' \<or>
     (t \<in> {''@demo-conf'', ''@ftw-conf'', ''@crs-setup-conf''} \<or> (\<exists>x. t = ''@owasp_crs/'' @ x)) \<and>
       (\<exists>a \<in> set (catalog_assets cat). asset_path a = t) \<or>
     t = ''@owasp_crs/*.conf'' \<and> (\<exists>a \<in> set (catalog_assets cat). \<exists>x. asset_path a = ''@owasp_crs/'' @ x)"

lemma lookup_None: "lookup cat t = None \<longleftrightarrow> (\<forall>a \<in> set (catalog_assets cat). asset_path a \<noteq> t)"
  by (auto simp: lookup_def find_None_iff)

lemma owasp_assets_Nil:
  "owasp_assets cat = [] \<longleftrightarrow> (\<forall>a \<in> set (catalog_assets cat). \<nexists>x. asset_path a = ''@owasp_crs/'' @ x)"
  by (simp add: owasp_assets_def filter_empty_conv starts_with_iff)

lemma include_assets_resolvable: "include_assets cat t = None \<longleftrightarrow> \<not> resolvable cat t"
proof -
  consider "t = ''@kubewaf-defaults''" | "t = ''@owasp_crs/*.conf''"
    | "t \<noteq> ''@kubewaf-defaults''" "t \<noteq> ''@owasp_crs/*.conf''"
    by blast
  then show ?thesis
  proof cases
    case 1
    then show ?thesis by (simp add: include_assets_def resolvable_def)
  next
    case 2
    have "resolvable cat t \<longleftrightarrow> owasp_assets cat \<noteq> []"
      unfolding resolvable_def owasp_assets_Nil 2 by auto
    then show ?thesis using 2 by (simp add: include_assets_def)
  next
    case 3
    let ?T = "t \<in> {''@demo-conf'', ''@ftw-conf'', ''@crs-setup-conf''} \<or> (\<exists>x. t = ''@owasp_crs/'' @ x)"
    from 3 have i: "include_assets cat t = (if ?T then map_option (\<lambda>a. [a]) (lookup cat t) else None)"
      unfolding include_assets_def starts_with_iff by (simp only: if_False)
    have r: "resolvable cat t \<longleftrightarrow> ?T \<and> (\<exists>a \<in> set (catalog_assets cat). asset_path a = t)"
      by (simp only: resolvable_def 3 simp_thms)
    show ?thesis
    proof (cases ?T)
      case True
      have "include_assets cat t = None \<longleftrightarrow> lookup cat t = None"
        unfolding i if_P [OF True] by (rule option.map_disc_iff)
      then show ?thesis unfolding r lookup_None using True by blast
    next
      case False
      have "include_assets cat t = None" unfolding i if_not_P [OF False] by (rule refl)
      then show ?thesis unfolding r using False by blast
    qed
  qed
qed

lemma apply_directives_includes:
  obtains chunks where "apply_directives cat (Some recorder) [] [] (Inr ds) =
    (case find (\<lambda>t. \<not> resolvable cat t) (include_targets (concat (map splitDirectiveLines ds))) of
       None \<Rightarrow> (True, chunks, []) | Some t \<Rightarrow> (False, chunks, include_error cat t))"
proof -
  let ?t = "find (\<lambda>t. \<not> resolvable cat t) (include_targets (concat (map splitDirectiveLines ds)))"
  have e: "snd (plan cat {} (concat (map splitDirectiveLines ds))) = map_option (include_error cat) ?t"
    unfolding plan_error include_assets_resolvable ..
  obtain chunks where "apply_directives cat (Some recorder) [] [] (Inr ds) =
      (map_option (include_error cat) ?t = None, chunks,
       case map_option (include_error cat) ?t of None \<Rightarrow> [] | Some e \<Rightarrow> e)"
    using apply_directives_plan [of cat ds] unfolding e by blast
  then show ?thesis by (intro that [of chunks]) (simp split: option.split)
qed

end
