(* ===== verification/Host.thy ===== *)
theory Host
  imports Prelude
begin

text \<open>
  What the filter does to the outside world, as a list of effects in the order in which they
  happen, and what the outside world answers. The answers of the host (metric ids, heap size,
  filter state) may depend on everything that happened before: they are functions of the list
  of effects. The proxy-wasm SDK and libModSecurity are not part of the repository; their calls
  are the constructors here.
\<close>

datatype metric_kind = Counter | Gauge

text \<open>The calls into a ModSecurity transaction.\<close>

datatype engine_call =
    NewTransaction string
  | ProcessConnection string int string int
  | ProcessURI string string string
  | AddRequestHeader string string
  | ProcessRequestHeaders
  | AppendRequestBody string
  | ProcessRequestBody
  | AddResponseHeader string string
  | ProcessResponseHeaders int string
  | AppendResponseBody string
  | ProcessResponseBody
  | ProcessLogging
  | Intervention

text \<open>The messages libModSecurity reports about a matched rule.\<close>

record rule_message =
  m_ruleId :: int
  m_phase :: int
  m_severity :: int
  m_isDisruptive :: bool
  m_message :: string
  m_data :: string
  m_match :: string
  m_tags :: "string list"

datatype effect =
    DefineMetric metric_kind string
  | IncrementMetric nat
  | RecordMetric nat nat
  | LogWarn string
  | LogError string
  | EngineCall engine_call
  | SendLocalResponse nat string string "(string \<times> string) list"
  | SetResponseBuffer nat string
  | ReplaceResponseHeader string string
  | SetFilterState string string
  | LoadRules string string
  | ForeignMatch rule_message

type_synonym trace = "effect list"

text \<open>
  \<open>define_metric\<close> is the id of a metric, or \<open>None\<close> when the host refuses it;
  \<open>heap_size\<close> is \<^verbatim>\<open>emscripten_get_heap_size\<close>; \<open>set_filter_state\<close> tells whether the
  host returned \<^verbatim>\<open>Ok\<close>.
\<close>

record host =
  define_metric :: "trace \<Rightarrow> metric_kind \<Rightarrow> string \<Rightarrow> nat option"
  heap_size :: "trace \<Rightarrow> nat"
  set_filter_state :: "trace \<Rightarrow> string \<Rightarrow> string \<Rightarrow> bool"

definition metric_effect :: "effect \<Rightarrow> bool" where
  "metric_effect e \<longleftrightarrow> (case e of DefineMetric _ _ \<Rightarrow> True | IncrementMetric _ \<Rightarrow> True
     | RecordMetric _ _ \<Rightarrow> True | _ \<Rightarrow> False)"

end
