(* ===== verification/Log_Lines.thy ===== *)
theory Log_Lines
  imports Host Json_Scan
begin

text \<open>
  The log lines of \<^verbatim>\<open>src/src/modsecurity_proxy_wasm.cc\<close>: JSON lifecycle lines, heap samples
  and rule matches, and the scanner that reads a field of such a line back.
\<close>

section \<open>Members of a log object\<close>

text \<open>A member with a number or truth value, and one with an escaped string.\<close>

definition raw_member :: "string \<Rightarrow> string \<Rightarrow> string" where
  "raw_member key value = quoted key @ '':'' @ value"

definition str_member :: "string \<Rightarrow> string \<Rightarrow> string" where
  "str_member key value = quoted key @ '':'' @ [DQUOTE] @ jsonEscape value @ [DQUOTE]"

definition bool_text :: "bool \<Rightarrow> string" where
  "bool_text b = (if b then ''true'' else ''false'')"

text \<open>\<^verbatim>\<open>if (!value.empty()) js << ",\"key\":..."\<close>\<close>

definition opt_member :: "string \<Rightarrow> string \<Rightarrow> string" where
  "opt_member key value = (if value = [] then [] else '','' @ str_member key value)"

section \<open>Lifecycle lines\<close>

definition logJson :: "bool \<Rightarrow> string \<Rightarrow> string \<Rightarrow> trace \<Rightarrow> trace" where
  "logJson is_error event members tr =
     (let line = ''{'' @ quoted ''component'' @ '':'' @ quoted ''modsecurity-proxy-wasm'' @ '','' @
            quoted ''event'' @ '':'' @ quoted event @
            (if members \<noteq> [] then '','' @ members else []) @ ''}''
      in tr @ [if is_error then LogError line else LogWarn line])"

definition wasmHeapBytes :: "host \<Rightarrow> trace \<Rightarrow> string" where
  "wasmHeapBytes h tr = nat_to_string (heap_size h tr)"

text \<open>The label is a pointer that may be null.\<close>

definition logHeapSample :: "host \<Rightarrow> string \<Rightarrow> string option \<Rightarrow> nat \<Rightarrow> trace \<Rightarrow> trace" where
  "logHeapSample h stage label bytes tr =
     (let members = raw_member ''stage'' (quoted stage) @ '','' @
            raw_member ''wasm_heap_bytes'' (wasmHeapBytes h tr) @
            (case label of None \<Rightarrow> [] | Some l \<Rightarrow> opt_member ''label'' l) @
            (if 0 < bytes then '','' @ raw_member ''bytes'' (nat_to_string bytes) else [])
      in logJson False ''heap_sample'' members tr)"

section \<open>Rule matches\<close>

definition classic_tail :: "int \<Rightarrow> string \<Rightarrow> string" where
  "classic_tail rule_id msg =
     (if 0 < rule_id \<and> msg \<noteq> [] then
        '' [id '' @ [DQUOTE] @ int_to_string rule_id @ [DQUOTE] @ ''] [msg '' @ [DQUOTE] @
          classicLogSanitize msg 180 @ [DQUOTE] @ '']''
      else [])"

text \<open>The line for a match outside every stream.\<close>

definition logRuleMatchJson :: "rule_message \<Rightarrow> trace \<Rightarrow> trace" where
  "logRuleMatchJson rm tr =
     (let line = ''{'' @ quoted ''component'' @ '':'' @ quoted ''modsecurity-proxy-wasm'' @ '','' @
            raw_member ''event'' (quoted ''rule_match'') @ '','' @
            raw_member ''engine'' (quoted ''modsecurity'') @ '','' @
            raw_member ''id'' (int_to_string (m_ruleId rm)) @ '','' @
            raw_member ''rule_id'' (int_to_string (m_ruleId rm)) @ '','' @
            raw_member ''phase'' (int_to_string (m_phase rm)) @ '','' @
            raw_member ''severity'' (int_to_string (m_severity rm)) @ '','' @
            raw_member ''disruptive'' (bool_text (m_isDisruptive rm)) @
            opt_member ''msg'' (take 256 (m_message rm)) @
            opt_member ''data'' (take 180 (m_data rm)) @
            opt_member ''match'' (take 180 (m_match rm)) @ ''}''
      in tr @ [LogWarn (line @ classic_tail (m_ruleId rm) (m_message rm))])"

section \<open>What a line contains\<close>

text \<open>The log lines of a trace, and the rule texts it loads.\<close>

fun log_line :: "effect \<Rightarrow> string option" where
  "log_line (LogWarn l) = Some l"
| "log_line (LogError l) = Some l"
| "log_line _ = None"

definition one_line :: "string \<Rightarrow> bool" where
  "one_line s \<longleftrightarrow> LF \<notin> set s \<and> CR \<notin> set s"

lemma one_line_append [simp]: "one_line (s @ t) \<longleftrightarrow> one_line s \<and> one_line t"
  by (auto simp: one_line_def)

lemma one_line_simps [simp]:
  "one_line []" "one_line (c # s) \<longleftrightarrow> c \<noteq> LF \<and> c \<noteq> CR \<and> one_line s"
  by (auto simp: one_line_def)

lemma one_line_escape [simp]: "one_line (jsonEscape s)"
  using jsonEscape_no_control [of LF s] jsonEscape_no_control [of CR s]
  by (auto simp: one_line_def control_def)

lemma one_line_nat [simp]: "one_line (nat_to_string n)"
  using nat_to_string_digits [of n] by (auto simp: one_line_def is_digit_def)

lemma one_line_int [simp]: "one_line (int_to_string i)"
  by (simp add: int_to_string_def)

lemma one_line_quoted [simp]: "one_line (quoted k) \<longleftrightarrow> one_line k"
  by (simp add: quoted_def)

lemma one_line_members [simp]:
  "one_line (raw_member k v) \<longleftrightarrow> one_line k \<and> one_line v"
  "one_line k \<Longrightarrow> one_line (str_member k v)" "one_line k \<Longrightarrow> one_line (opt_member k v)"
  by (simp_all add: raw_member_def str_member_def opt_member_def)

lemma one_line_bool [simp]: "one_line (bool_text b)"
  by (simp add: bool_text_def)

lemma one_line_classic [simp]: "one_line (classicLogSanitize s n)"
  by (auto simp: one_line_def classicLogSanitize_eq classic_char_def control_def)

lemma one_line_tail [simp]: "one_line (classic_tail i m)"
  by (simp add: classic_tail_def)

lemma one_line_heap [simp]: "one_line (wasmHeapBytes h tr)"
  by (simp add: wasmHeapBytes_def)

text \<open>Every line of a trace is one line.\<close>

definition lines_ok :: "trace \<Rightarrow> bool" where
  "lines_ok tr \<longleftrightarrow> (\<forall>e \<in> set tr. \<forall>l. log_line e = Some l \<longrightarrow> one_line l)"

lemma lines_ok_simps [simp]:
  "lines_ok []" "lines_ok (a @ b) \<longleftrightarrow> lines_ok a \<and> lines_ok b"
  "lines_ok (e # tr) \<longleftrightarrow> (\<forall>l. log_line e = Some l \<longrightarrow> one_line l) \<and> lines_ok tr"
  by (auto simp: lines_ok_def)

lemma logJson_lines:
  "one_line event \<Longrightarrow> one_line members \<Longrightarrow> lines_ok tr \<Longrightarrow> lines_ok (logJson e event members tr)"
  by (simp add: logJson_def Let_def)

lemma logHeapSample_lines: "one_line stage \<Longrightarrow> lines_ok tr \<Longrightarrow> lines_ok (logHeapSample h stage label b tr)"
  unfolding logHeapSample_def Let_def
  by (rule logJson_lines) (simp_all split: option.split)

lemma logRuleMatchJson_lines: "lines_ok tr \<Longrightarrow> lines_ok (logRuleMatchJson rm tr)"
  by (simp add: logRuleMatchJson_def Let_def)

end
