(* ===== verification/Data_Files.thy ===== *)
theory Data_Files
  imports Directives "HOL-Library.Multiset"
begin

text \<open>
  The runtime data files of a configuration (\<^verbatim>\<open>parseDataFiles\<close> in
  \<^verbatim>\<open>src/src/waf_config.cc\<close>): a JSON object of base64 texts, decoded under a size budget.

  A \<^verbatim>\<open>std::unordered_map\<close> is an association list without duplicate keys. The order in
  which the C++ loop enumerates it is not specified: the function \<open>iter\<close> that rearranges the
  list is a parameter.
\<close>

section \<open>The object of encoded files\<close>

definition data_sep :: string where
  "data_sep = '' '' @ [LF, CR, TAB] @ '',''"

text \<open>The raw key up to the closing quote and the text behind that; \<open>None\<close> without closing quote.\<close>

fun scan_key :: "string \<Rightarrow> (string \<times> string) option" where
  "scan_key [] = None"
| "scan_key (c # cs) =
     (if c = DQUOTE then Some ([], cs)
      else if c = BSLASH then
        (case cs of [] \<Rightarrow> None | d # ds \<Rightarrow> map_option (apfst (\<lambda>k. c # d # k)) (scan_key ds))
      else map_option (apfst ((#) c)) (scan_key cs))"

text \<open>The value: an escaped character stands for itself, also \<^verbatim>\<open>\n\<close>.\<close>

fun scan_value :: "string \<Rightarrow> (string \<times> string) option" where
  "scan_value [] = None"
| "scan_value (c # cs) =
     (if c = DQUOTE then Some ([], cs)
      else if c = BSLASH \<and> cs \<noteq> [] then map_option (apfst ((#) (hd cs))) (scan_value (tl cs))
      else map_option (apfst ((#) c)) (scan_value cs))"

fun map_put :: "string \<Rightarrow> string \<Rightarrow> (string \<times> string) list \<Rightarrow> (string \<times> string) list" where
  "map_put k v [] = [(k, v)]"
| "map_put k v ((k', v') # m) = (if k' = k then (k, v) # m else (k', v') # map_put k v m)"

lemma scan_key_shorter: "scan_key s = Some (k, t) \<Longrightarrow> length t < length s"
  by (induction s arbitrary: k t rule: scan_key.induct)
    (auto split: if_splits list.splits simp: less_Suc_eq)

lemma scan_value_shorter: "scan_value s = Some (v, t) \<Longrightarrow> length t < length s"
proof (induction s arbitrary: v t rule: scan_value.induct)
  case (2 c cs)
  then show ?case by (cases cs) (force split: if_splits)+
qed simp

lemma length_dropWhile_le [simp]: "length (dropWhile P xs) \<le> length xs"
  by (induction xs) auto

text \<open>The loop on the text behind the opening brace.\<close>

function data_files_loop :: "string \<Rightarrow> (string \<times> string) list \<Rightarrow> string + (string \<times> string) list" where
  "data_files_loop rest encoded =
     (if rest = [] then Inl ''data_files: unclosed object''
      else
        (let s = dropWhile (\<lambda>c. c \<in> set data_sep) rest in
         if s \<noteq> [] \<and> hd s = CHR ''}'' then Inr encoded
         else if s = [] \<or> hd s \<noteq> DQUOTE then Inl ''data_files: expected string key''
         else (case scan_key (tl s) of None \<Rightarrow> Inl ''data_files: unterminated key''
           | Some (fname, t) \<Rightarrow>
             (let u = dropWhile (\<lambda>c. c = CHR '' '' \<or> c = TAB \<or> c = CHR '':'') t in
              if u = [] \<or> hd u \<noteq> DQUOTE then Inl (''data_files: expected string value for '' @ fname)
              else (case scan_value (tl u) of
                  None \<Rightarrow> Inl (''data_files: unterminated value for '' @ fname)
                | Some (val, rest') \<Rightarrow> data_files_loop rest' (map_put fname val encoded))))))"
  by pat_completeness auto
termination
proof (relation "measure (\<lambda>(rest, encoded). length rest)")
  fix rest s fname t u val rest' :: string and encoded :: "(string \<times> string) list" and x y
  assume a: "s = dropWhile (\<lambda>c. c \<in> set data_sep) rest" "scan_key (tl s) = Some x" "(fname, t) = x"
    "u = dropWhile (\<lambda>c. c = CHR '' '' \<or> c = TAB \<or> c = CHR '':'') t" "scan_value (tl u) = Some y"
    "(val, rest') = y"
  have "length rest' < length (tl u)" using a(5,6) scan_value_shorter by metis
  also have "length (tl u) \<le> length t" using a(4) by (metis length_dropWhile_le length_tl le_trans diff_le_self)
  also have "length t < length (tl s)" using a(2,3) scan_key_shorter by metis
  also have "length (tl s) \<le> length rest" using a(1) by (metis length_dropWhile_le length_tl le_trans diff_le_self)
  finally show "((rest', map_put fname val encoded), rest, encoded) \<in> measure (\<lambda>(rest, encoded). length rest)"
    by simp
qed simp

declare data_files_loop.simps [simp del]

definition extractDataFilesObject :: "string \<Rightarrow> string + (string \<times> string) list" where
  "extractDataFilesObject json =
     (case find_str json (quoted ''data_files'') 0 of None \<Rightarrow> Inr []
      | Some pos \<Rightarrow>
        (case find_char json (CHR ''{'') (pos + length (quoted ''data_files'')) of
           None \<Rightarrow> Inl ''data_files is not an object''
         | Some obj \<Rightarrow> data_files_loop (drop (obj + 1) json) []))"

section \<open>Decoding under the budget\<close>

definition kMaxDataFileInflatedBytes :: nat where
  "kMaxDataFileInflatedBytes = 2 * 1024 * 1024"

definition kMaxDataFilesTotalInflatedBytes :: nat where
  "kMaxDataFilesTotalInflatedBytes = 2 * 1024 * 1024"

definition decode_data_file :: "'z zlib \<Rightarrow> string \<Rightarrow> string \<Rightarrow> (string + string) option" where
  "decode_data_file zl encoding v =
     (if encoding = ''gzip+base64'' \<or> encoding = ''gzip'' then
        (case base64Decode v of Inl e \<Rightarrow> Some (Inl e) | Inr compressed \<Rightarrow> gzipInflate zl compressed)
      else Some (base64Decode v))"

text \<open>
  The loop over the files: success, the files stored so far, and the error. The running total
  stays below 4 MiB, so that \<^verbatim>\<open>size_t\<close> does not wrap.
\<close>

fun decode_files :: "'z zlib \<Rightarrow> string \<Rightarrow> (string \<times> string) list \<Rightarrow> nat \<Rightarrow> (string \<times> string) list \<Rightarrow>
    (bool \<times> (string \<times> string) list \<times> string) option" where
  "decode_files zl encoding [] used out = Some (True, out, [])"
| "decode_files zl encoding ((k, v) # kvs) used out =
     (case decode_data_file zl encoding v of
        None \<Rightarrow> None
      | Some (Inl e) \<Rightarrow> Some (False, out, ''data_files['' @ k @ '']: '' @ e)
      | Some (Inr plain) \<Rightarrow>
          (if kMaxDataFileInflatedBytes < length plain
           then Some (False, out, ''data_files['' @ k @ '']: exceeds max inflated size'')
           else if kMaxDataFilesTotalInflatedBytes < used + length plain
           then Some (False, out, ''data_files total inflated size exceeds max'')
           else decode_files zl encoding kvs (used + length plain) (map_put k plain out)))"

definition parseDataFiles :: "'z zlib \<Rightarrow> ((string \<times> string) list \<Rightarrow> (string \<times> string) list) \<Rightarrow> string \<Rightarrow>
    (bool \<times> (string \<times> string) list \<times> string) option" where
  "parseDataFiles zl iter config =
     (if \<not> looksLikeJson (trim config) then Some (True, [], [])
      else (case extractDataFilesObject config of
          Inl e \<Rightarrow> Some (False, [], e)
        | Inr encoded \<Rightarrow>
            (if encoded = [] then Some (True, [], [])
             else (let enc = extractJsonStringValue config ''data_files_encoding'';
                       encoding = (if enc = [] then ''base64'' else enc)
                   in decode_files zl encoding (iter encoded) 0 []))))"

section \<open>The budget\<close>

definition total_size :: "(string \<times> string) list \<Rightarrow> nat" where
  "total_size files = sum_list (map (\<lambda>f. length (snd f)) files)"

lemma total_size_simps [simp]:
  "total_size [] = 0" "total_size (f # fs) = length (snd f) + total_size fs"
  by (simp_all add: total_size_def)

lemma total_size_put: "total_size (map_put k v m) \<le> total_size m + length v"
  by (induction k v m rule: map_put.induct) auto

lemma total_size_put_le [simp]:
  "total_size m \<le> n \<Longrightarrow> total_size (map_put k v m) \<le> n + length v"
  using total_size_put [of k v m] by linarith

lemma decode_files_total:
  "decode_files zl enc kvs used out = Some (ok, out', e) \<Longrightarrow> total_size out \<le> used \<Longrightarrow>
   used \<le> kMaxDataFilesTotalInflatedBytes \<Longrightarrow> total_size out' \<le> kMaxDataFilesTotalInflatedBytes"
proof (induction zl enc kvs used out rule: decode_files.induct)
  case (2 zl enc k v kvs used out)
  then show ?case by (auto split: option.splits sum.splits if_splits)
qed simp

section \<open>Independence of the enumeration order\<close>

definition decoded_file :: "'z zlib \<Rightarrow> string \<Rightarrow> string \<Rightarrow> string option" where
  "decoded_file zl enc v =
     (case decode_data_file zl enc v of Some (Inr d) \<Rightarrow>
        (if length d \<le> kMaxDataFileInflatedBytes then Some d else None) | _ \<Rightarrow> None)"

definition all_decoded :: "'z zlib \<Rightarrow> string \<Rightarrow> (string \<times> string) list \<Rightarrow> (string \<times> string) list" where
  "all_decoded zl enc kvs = map (\<lambda>(k, v). (k, the (decoded_file zl enc v))) kvs"

lemma all_decoded_simps [simp]:
  "all_decoded zl enc [] = []"
  "all_decoded zl enc ((k, v) # kvs) = (k, the (decoded_file zl enc v)) # all_decoded zl enc kvs"
  by (simp_all add: all_decoded_def)

lemma map_put_fresh: "k \<notin> fst ` set m \<Longrightarrow> map_put k v m = m @ [(k, v)]"
  by (induction k v m rule: map_put.induct) auto

lemma map_put_keys: "fst ` set (map_put k v m) = insert k (fst ` set m)"
  by (induction k v m rule: map_put.induct) auto

lemma map_put_distinct: "distinct (map fst m) \<Longrightarrow> distinct (map fst (map_put k v m))"
  by (induction k v m rule: map_put.induct) (auto simp: map_put_keys)

lemma data_files_loop_step:
  assumes "data_files_loop rest encoded = Inr m"
  shows "m = encoded \<or> (\<exists>k v rest'. length rest' < length rest \<and>
    data_files_loop rest' (map_put k v encoded) = Inr m)"
proof -
  define s where "s = dropWhile (\<lambda>c. c \<in> set data_sep) rest"
  have s: "length (tl s) \<le> length rest"
    unfolding s_def by (metis length_dropWhile_le length_tl le_trans diff_le_self)
  show ?thesis
  proof (cases "s \<noteq> [] \<and> hd s = CHR ''}''")
    case True
    with assms show ?thesis
      by (subst (asm) data_files_loop.simps) (simp add: Let_def flip: s_def split: if_splits)
  next
    case False
    with assms obtain fname t where k: "scan_key (tl s) = Some (fname, t)"
      by (subst (asm) data_files_loop.simps) (auto simp: Let_def simp flip: s_def split: if_splits option.splits)
    define u where "u = dropWhile (\<lambda>c. c = CHR '' '' \<or> c = TAB \<or> c = CHR '':'') t"
    have u: "length (tl u) \<le> length t"
      unfolding u_def by (metis length_dropWhile_le length_tl le_trans diff_le_self)
    from False assms k obtain val rest' where v: "scan_value (tl u) = Some (val, rest')"
      "data_files_loop rest' (map_put fname val encoded) = Inr m"
      by (subst (asm) data_files_loop.simps)
        (auto simp: Let_def simp flip: s_def u_def split: if_splits option.splits)
    have "length rest' < length rest"
      using scan_key_shorter [OF k] scan_value_shorter [OF v(1)] s u by linarith
    with v show ?thesis by blast
  qed
qed

lemma data_files_loop_distinct:
  "distinct (map fst encoded) \<Longrightarrow> data_files_loop rest encoded = Inr m \<Longrightarrow> distinct (map fst m)"
proof (induction "length rest" arbitrary: rest encoded rule: less_induct)
  case less
  from data_files_loop_step [OF less.prems(2)] less.prems(1) less.hyps show ?case
    by (metis map_put_distinct)
qed

lemma extractDataFilesObject_distinct:
  "extractDataFilesObject json = Inr m \<Longrightarrow> distinct (map fst m)"
  by (auto simp: extractDataFilesObject_def split: option.splits
      intro: data_files_loop_distinct [of "[]", simplified])

definition fits :: "'z zlib \<Rightarrow> string \<Rightarrow> (string \<times> string) list \<Rightarrow> nat \<Rightarrow> bool" where
  "fits zl enc kvs used \<longleftrightarrow> (\<forall>kv \<in> set kvs. decoded_file zl enc (snd kv) \<noteq> None) \<and>
     used + total_size (all_decoded zl enc kvs) \<le> kMaxDataFilesTotalInflatedBytes"

lemma decode_files_ok:
  assumes "distinct (map fst (out @ kvs))" "used \<le> kMaxDataFilesTotalInflatedBytes"
  shows "decode_files zl enc kvs used out = Some (True, out', e) \<longleftrightarrow>
    fits zl enc kvs used \<and> out' = out @ all_decoded zl enc kvs \<and> e = []"
  using assms
proof (induction kvs arbitrary: used out)
  case Nil
  then show ?case by (auto simp: fits_def)
next
  case (Cons kv kvs)
  obtain k v where kv: "kv = (k, v)" by (cases kv)
  show ?case
  proof (cases "decoded_file zl enc v")
    case None
    then show ?thesis
      by (auto simp: kv fits_def decoded_file_def split: option.splits sum.splits if_splits)
  next
    case (Some d)
    then have d: "decode_data_file zl enc v = Some (Inr d)" "length d \<le> kMaxDataFileInflatedBytes"
      by (auto simp: decoded_file_def split: option.splits sum.splits if_splits)
    have "map_put k d out = out @ [(k, d)]" using Cons.prems kv by (intro map_put_fresh) auto
    then show ?thesis
      using Cons.IH [of "out @ [(k, d)]" "used + length d"] Cons.prems d Some
      by (auto simp: kv fits_def add.assoc)
  qed
qed

lemma fits_mset: "mset kvs = mset kvs' \<Longrightarrow> fits zl enc kvs used = fits zl enc kvs' used"
proof -
  assume m: "mset kvs = mset kvs'"
  then have "set kvs = set kvs'" by (metis set_mset_mset)
  moreover have "mset (map (\<lambda>f. length (snd f)) (all_decoded zl enc kvs)) =
      mset (map (\<lambda>f. length (snd f)) (all_decoded zl enc kvs'))"
    using m by (simp add: all_decoded_def)
  then have "total_size (all_decoded zl enc kvs) = total_size (all_decoded zl enc kvs')"
    unfolding total_size_def by (metis sum_mset_sum_list)
  ultimately show ?thesis by (simp add: fits_def)
qed

lemma all_decoded_keys: "map fst (all_decoded zl enc kvs) = map fst kvs"
  by (simp add: all_decoded_def case_prod_beta)

lemma map_of_mset: "mset m = mset m' \<Longrightarrow> distinct (map fst m) \<Longrightarrow> map_of m = map_of m'"
  by (metis map_of_inject_set mset_eq_setD mset_map mset_eq_imp_distinct_iff)

lemma parseDataFiles_order:
  assumes "\<And>m. mset (iter m) = mset m" "\<And>m. mset (iter' m) = mset m"
    and ok: "parseDataFiles zl iter config = Some (True, files, e)"
  shows "\<exists>files'. parseDataFiles zl iter' config = Some (True, files', []) \<and> map_of files' = map_of files"
proof (cases "looksLikeJson (trim config) \<and> (\<exists>m. extractDataFilesObject config = Inr m \<and> m \<noteq> [])")
  case True
  then obtain m where m: "looksLikeJson (trim config)" "extractDataFilesObject config = Inr m" "m \<noteq> []" by blast
  define enc where "enc = (let enc = extractJsonStringValue config ''data_files_encoding'' in
    if enc = [] then ''base64'' else enc)"
  have p: "parseDataFiles zl i config = decode_files zl enc (i m) 0 []" for i
    using m by (simp add: parseDataFiles_def enc_def Let_def)
  have d: "distinct (map fst m)" by (rule extractDataFilesObject_distinct [OF m(2)])
  have dist: "distinct (map fst ([] @ i m))" if "mset (i m) = mset m" for i
    using that d by (metis append_Nil mset_eq_imp_distinct_iff mset_map)
  from ok have f: "fits zl enc (iter m) 0" "files = all_decoded zl enc (iter m)"
    unfolding p by (simp_all add: decode_files_ok [OF dist [of iter, OF assms(1)]])
  have "fits zl enc (iter' m) 0" using f(1) fits_mset assms(1,2) by metis
  then have "parseDataFiles zl iter' config = Some (True, all_decoded zl enc (iter' m), [])"
    unfolding p by (simp add: decode_files_ok [OF dist [of iter', OF assms(2)]])
  moreover have "mset (all_decoded zl enc (iter' m)) = mset (all_decoded zl enc (iter m))"
    using assms(1,2) by (simp add: all_decoded_def)
  then have "map_of (all_decoded zl enc (iter' m)) = map_of (all_decoded zl enc (iter m))"
    by (rule map_of_mset) (metis all_decoded_keys append_Nil dist [of iter', OF assms(2)])
  ultimately show ?thesis using f(2) by blast
next
  case False
  then have "parseDataFiles zl iter config = parseDataFiles zl iter' config"
    and "parseDataFiles zl iter config \<noteq> Some (True, files, e) \<or> e = []"
    by (auto simp: parseDataFiles_def split: sum.splits)
  with ok show ?thesis by auto
qed

section \<open>Files written by the operator are read back\<close>

lemma scan_key_plain: "list_all plain_char s \<Longrightarrow> scan_key (s @ DQUOTE # t) = Some (s, t)"
  by (induction s) (auto simp: plain_char_def)

lemma scan_value_plain: "list_all plain_char s \<Longrightarrow> scan_value (s @ DQUOTE # t) = Some (s, t)"
  by (induction s) (auto simp: plain_char_def)

lemma plain_b64_char: "d < 64 \<Longrightarrow> plain_char (b64_char d)"
proof -
  assume "d < 64"
  then have b: "byte (b64_char d) = (if d < 26 then 65 + d else if d < 52 then 71 + d
      else if d < 62 then d - 4 else if d = 62 then 43 else 47)"
    by (simp add: b64_char_def)
  then have "b64_char d \<notin> {DQUOTE, BSLASH, LF, CR, TAB}" "\<not> byte (b64_char d) < 0x20"
    using \<open>d < 64\<close> by (auto dest: byte_eqD split: if_splits)
  then show ?thesis by (auto simp: plain_char_def escape_char_def)
qed

lemma plain_pad: "plain_char (CHR ''='')"
  by (simp add: plain_char_def escape_char_def)

lemma b64_encode_plain: "list_all plain_char (b64_encode bs)"
  by (induction bs rule: b64_encode.induct) (simp_all add: plain_b64_char plain_pad)

text \<open>The members of the object, then whatever follows it.\<close>

definition file_members :: "(string \<times> string) list \<Rightarrow> string" where
  "file_members files = render_members (map (\<lambda>(f, d). (f, JStr (b64_encode d))) files)"

lemma file_members_simps:
  "list_all plain_char f \<Longrightarrow> file_members ((f, d) # files) =
     DQUOTE # f @ DQUOTE # CHR '':'' # DQUOTE # b64_encode d @ DQUOTE #
       (if files = [] then [] else CHR '','' # file_members files)"
  "file_members [] = []"
  by (simp_all add: file_members_def jsonEscape_plain b64_encode_plain)

lemma data_files_loop_comma:
  "data_files_loop (CHR '','' # DQUOTE # t) m = data_files_loop (DQUOTE # t) m"
  by (subst (1 2) data_files_loop.simps) (simp add: data_sep_def)

lemma data_files_loop_members:
  "list_all (\<lambda>f. list_all plain_char (fst f)) files \<Longrightarrow> distinct (map fst (m @ files)) \<Longrightarrow>
   data_files_loop (file_members files @ CHR ''}'' # t) m =
     Inr (m @ map (\<lambda>(f, d). (f, b64_encode d)) files)"
proof (induction files arbitrary: m)
  case Nil
  then show ?case by (subst data_files_loop.simps) (simp add: file_members_simps data_sep_def)
next
  case (Cons fd files)
  obtain f d where fd: "fd = (f, d)" by (cases fd)
  let ?rest = "(if files = [] then [] else CHR '','' # file_members files) @ CHR ''}'' # t"
  have pl: "list_all plain_char f" using Cons.prems fd by simp
  have "data_files_loop (file_members (fd # files) @ CHR ''}'' # t) m =
      data_files_loop ?rest (map_put f (b64_encode d) m)"
    unfolding fd file_members_simps(1) [OF pl]
    by (subst data_files_loop.simps)
      (simp add: data_sep_def Let_def scan_key_plain [OF pl] scan_value_plain [OF b64_encode_plain]
        del: jsonEscape.simps)
  moreover have "map_put f (b64_encode d) m = m @ [(f, b64_encode d)]"
    using Cons.prems fd by (intro map_put_fresh) auto
  moreover have "data_files_loop ?rest n = data_files_loop (file_members files @ CHR ''}'' # t) n" for n
  proof (cases files)
    case Nil
    then show ?thesis by (simp add: file_members_simps)
  next
    case (Cons gd gs)
    obtain g e where "gd = (g, e)" by (cases gd)
    with Cons.prems Cons have "list_all plain_char g" by simp
    from file_members_simps(1) [OF this] show ?thesis
      using Cons \<open>gd = (g, e)\<close> by (simp add: data_files_loop_comma)
  qed
  ultimately show ?case
    using Cons.IH [of "m @ [(f, b64_encode d)]"] Cons.prems fd by (simp add: image_image case_prod_beta comp_def)
qed

lemma data_files_read:
  assumes config: "config = ''{'' @ quoted ''data_files'' @ '':{'' @ file_members files @ CHR ''}'' # rest"
    and names: "list_all (\<lambda>f. list_all plain_char (fst f)) files" "distinct (map fst files)"
    and default: "\<not> contains config (quoted ''data_files_encoding'')"
    and budget: "total_size files \<le> 2 * 1024 * 1024"
  shows "parseDataFiles zl (\<lambda>m. m) config = Some (True, files, [])"
proof -
  have j: "looksLikeJson (trim config)"
  proof -
    obtain t where "trim config = CHR ''{'' # t"
      using trim_Cons [of "CHR ''{''" "tl config"] by (auto simp: config is_space_def)
    then show ?thesis unfolding looksLikeJson_def trim_trim by simp
  qed
  have k: "find_str config (quoted ''data_files'') 0 = Some 1"
    unfolding config by (simp add: find_str_def quoted_def)
  have b: "find_char config (CHR ''{'') (1 + length (quoted ''data_files'')) = Some 14"
    unfolding config by (simp add: find_char_def find_pos_def quoted_def)
  have x: "extractDataFilesObject config = Inr (map (\<lambda>(f, d). (f, b64_encode d)) files)"
    using data_files_loop_members [OF names(1), of "[]" rest] names(2)
    unfolding extractDataFilesObject_def k option.case b
    by (simp add: config quoted_def)
  have e: "extractJsonStringValue config ''data_files_encoding'' = []"
    using default by (simp add: extractJsonStringValue_def contains_def)
  have dec: "decoded_file zl ''base64'' (b64_encode d) =
      (if length d \<le> kMaxDataFileInflatedBytes then Some d else None)" for d
    by (simp add: decoded_file_def decode_data_file_def base64Decode_encode)
  have le: "length (snd f) \<le> total_size files" if "f \<in> set files" for f
    using that by (induction files) auto
  let ?m = "map (\<lambda>(f, d). (f, b64_encode d)) files"
  have small: "\<forall>f \<in> set files. length (snd f) \<le> kMaxDataFileInflatedBytes"
    using le budget by (auto simp: kMaxDataFileInflatedBytes_def intro: le_trans)
  then have all: "all_decoded zl ''base64'' ?m = files"
    by (induction files) (auto simp: dec case_prod_beta)
  have "fits zl ''base64'' ?m 0"
    using small budget by (auto simp: fits_def all dec kMaxDataFilesTotalInflatedBytes_def)
  then have "decode_files zl ''base64'' ?m 0 [] = Some (True, files, [])"
    using names(2) by (subst decode_files_ok) (simp_all add: all comp_def case_prod_beta)
  then show ?thesis using j x e by (auto simp: parseDataFiles_def Let_def)
qed

text \<open>In any order of the hash map.\<close>

lemma data_files_read_any:
  assumes iter: "\<And>m. mset (iter m) = mset m"
    and config: "config = ''{'' @ quoted ''data_files'' @ '':{'' @ file_members files @ CHR ''}'' # rest"
    and "list_all (\<lambda>f. list_all plain_char (fst f)) files" "distinct (map fst files)"
    and "\<not> contains config (quoted ''data_files_encoding'')" "total_size files \<le> 2 * 1024 * 1024"
  shows "\<exists>files'. parseDataFiles zl iter config = Some (True, files', []) \<and> map_of files' = map_of files"
  by (rule parseDataFiles_order [OF _ iter data_files_read]) (use assms in simp_all)

text \<open>A document for the witnesses.\<close>

definition sample_files :: string where
  "sample_files = ''{'' @ quoted ''data_files'' @ '':{'' @
     file_members [(''a.data'', ''kube''), (''x'', [])] @ CHR ''}'' # ''}''"

lemma sample_ok:
  "list_all plain_char ''a.data''" "list_all plain_char ''x''"
  "\<not> contains sample_files (quoted ''data_files_encoding'')"
  by code_simp+

lemma sample_read: "parseDataFiles zl (\<lambda>m. m) sample_files =
    Some (True, [(''a.data'', ''kube''), (''x'', [])], [])"
  by (rule data_files_read [OF sample_files_def]) (use sample_ok in simp_all)

section \<open>Properties\<close>

text \<open>
  C32: whatever the configuration, the encoding, the decompressor and the
  enumeration order, also when parsing fails half way, the files handed out hold at most 2 MiB
  in total.
\<close>

theorem data_files_budget:
  assumes "parseDataFiles zl iter config = Some (ok, files, e)"
  shows "total_size files \<le> 2 * 1024 * 1024"
proof -
  have "total_size files \<le> kMaxDataFilesTotalInflatedBytes"
    using assms decode_files_total [of zl _ _ 0 "[]" ok files e]
    by (auto simp: parseDataFiles_def Let_def split: if_splits sum.splits)
  then show ?thesis by (simp add: kMaxDataFilesTotalInflatedBytes_def)
qed

lemma data_files_budget_witness: "total_size [(''a.data'', ''kube''), (''x'', [])] \<le> 2 * 1024 * 1024"
  by (rule data_files_budget [OF sample_read])

text \<open>
  C33: the order in which the hash map is enumerated decides neither
  whether the files are accepted nor, when they are, what file has what content.
\<close>

theorem data_files_order:
  assumes "\<And>m. mset (iter m) = mset m" "\<And>m. mset (iter' m) = mset m"
    and ok: "parseDataFiles zl iter config = Some (True, files, e)"
  shows "\<exists>files'. parseDataFiles zl iter' config = Some (True, files', []) \<and> map_of files' = map_of files"
  using assms by (rule parseDataFiles_order)

lemma data_files_order_witness:
  "\<exists>files'. parseDataFiles stored_zlib rev sample_files = Some (True, files', []) \<and>
     map_of files' = map_of [(''a.data'', ''kube''), (''x'', [])]"
  by (rule data_files_order [OF _ _ sample_read]) simp_all

text \<open>
  C22: files that an operator writes into the configuration, base64
  encoded, are read back byte for byte when they fit the budget, whatever follows them in the
  configuration and in whatever order the hash map is enumerated.
\<close>

theorem data_files_roundtrip:
  assumes iter: "\<And>m. mset (iter m) = mset m"
    and config: "config = ''{'' @ quoted ''data_files'' @ '':{'' @ file_members files @ CHR ''}'' # rest"
    and names: "list_all (\<lambda>f. list_all plain_char (fst f)) files" "distinct (map fst files)"
    and default: "\<not> contains config (quoted ''data_files_encoding'')"
    and budget: "total_size files \<le> 2 * 1024 * 1024"
  shows "\<exists>files'. parseDataFiles zl iter config = Some (True, files', []) \<and> map_of files' = map_of files"
  using assms by (rule data_files_read_any)

lemma data_files_roundtrip_witness:
  "\<exists>files'. parseDataFiles stored_zlib rev sample_files = Some (True, files', []) \<and>
     map_of files' = map_of [(''a.data'', ''kube''), (''x'', [])]"
  by (rule data_files_roundtrip [OF _ sample_files_def]) (use sample_ok in simp_all)

end
