(* ===== verification/Vfs.thy ===== *)
theory Vfs
  imports Rule_Load Data_Files
begin

text \<open>
  The files that ModSecurity sees (\<^verbatim>\<open>src/src/wasm_vfs.cc\<close>): the reference path of a rule
  chunk, and the data files of phrase operators, served from the runtime map or the catalog.
  A C string is a string without NUL; a null pointer is \<open>None\<close>.
\<close>

section \<open>Reference paths\<close>

definition kRulesDir :: string where
  "kRulesDir = ''/modsecurity-proxy-wasm-rules''"

definition ruleRefPath :: "string option \<Rightarrow> string" where
  "ruleRefPath label =
     (let dir = kRulesDir @ ''/'' in
      case label of None \<Rightarrow> dir @ ''rules.conf''
      | Some l \<Rightarrow>
        (if l = [] then dir @ ''rules.conf''
         else if l = ''inline-directives'' then dir @ ''inline.conf''
         else if l = ''@demo-conf'' then dir @ ''demo-conf.conf''
         else if l = ''@kubewaf-defaults'' then dir @ ''kubewaf-defaults.conf''
         else if l = ''@crs-setup-conf'' then dir @ ''crs-setup.conf''
         else if starts_with l ''@owasp_crs/'' then dir @ drop 11 l
         else if l = ''plain-config'' then dir @ ''plain.conf''
         else if hd l = CHR ''@'' then dir @ drop 1 l
         else dir @ l))"

section \<open>Data files\<close>

text \<open>The runtime map is the only state.\<close>

type_synonym runtime_files = "(string \<times> string) list"

definition set_runtime_data_files :: "runtime_files \<Rightarrow> runtime_files \<Rightarrow> runtime_files" where
  "set_runtime_data_files files current = files"

definition clear_runtime_data_files :: "runtime_files \<Rightarrow> runtime_files" where
  "clear_runtime_data_files current = []"

definition countCrsDataFiles :: "catalog \<Rightarrow> int" where
  "countCrsDataFiles cat =
     int (length (filter (\<lambda>a. starts_with (asset_path a) ''@crs-data/'') (catalog_assets cat)))"

definition mount_crs_data_files :: "catalog \<Rightarrow> bool" where
  "mount_crs_data_files cat = (let n = countCrsDataFiles cat in True)"

definition after_last :: "char \<Rightarrow> string \<Rightarrow> string" where
  "after_last c s = (case rfind_char s c of None \<Rightarrow> s | Some i \<Rightarrow> drop (i + 1) s)"

definition base_name :: "string \<Rightarrow> string" where
  "base_name name = after_last BSLASH (after_last (CHR ''/'') name)"

definition resolve_data_file :: "catalog \<Rightarrow> runtime_files \<Rightarrow> string option \<Rightarrow> string option" where
  "resolve_data_file cat files name =
     (case name of None \<Rightarrow> None
      | Some n \<Rightarrow>
        (if n = [] then None
         else (let base = base_name n in
           if base = [] then None
           else (case (if files = [] then None else map_of files base) of
               Some d \<Rightarrow> Some d
             | None \<Rightarrow>
               (case lookup cat (''@crs-data/'' @ base) of None \<Rightarrow> None
                | Some a \<Rightarrow> asset_data a)))))"

section \<open>Base names\<close>

lemma after_last_append: "c \<notin> set b \<Longrightarrow> after_last c (a @ c # b) = b"
proof -
  assume "c \<notin> set b"
  then have "find_idx (\<lambda>x. x = c) (rev b) = None" by (auto simp: find_idx_None)
  then have "find_idx (\<lambda>x. x = c) (rev (a @ c # b)) = Some (length b)"
    by (simp add: find_idx_append)
  then show ?thesis by (simp add: after_last_def rfind_char_def)
qed

lemma after_last_none: "c \<notin> set b \<Longrightarrow> after_last c b = b"
proof -
  assume "c \<notin> set b"
  then have "find_idx (\<lambda>x. x = c) (rev b) = None" by (auto simp: find_idx_None)
  then show ?thesis by (simp add: after_last_def rfind_char_def)
qed

lemma base_name_path:
  assumes "CHR ''/'' \<notin> set b" "BSLASH \<notin> set b"
  shows "base_name (dir @ CHR ''/'' # b) = b" "base_name (dir @ BSLASH # b) = b" "base_name b = b"
proof -
  show "base_name (dir @ CHR ''/'' # b) = b" "base_name b = b"
    using assms by (simp_all add: base_name_def after_last_append after_last_none)
  show "base_name (dir @ BSLASH # b) = b"
  proof (cases "CHR ''/'' \<in> set dir")
    case True
    then obtain p q where "dir = p @ CHR ''/'' # q" "CHR ''/'' \<notin> set q"
      by (metis split_list_last)
    with assms show ?thesis
      using after_last_append [of "CHR ''/''" "q @ BSLASH # b" p]
      by (simp add: base_name_def after_last_append)
  next
    case False
    with assms show ?thesis by (simp add: base_name_def after_last_append after_last_none)
  qed
qed

section \<open>Properties\<close>

text \<open>
  C37: only the base name decides which data file an operator reads:
  whatever directory stands before it, with either separator, a file of the configuration wins
  over the catalog, and without one the catalog's asset of that name is read. No path leads
  outside these two sources.
\<close>

theorem resolve_by_base_name:
  assumes "b \<noteq> []" "CHR ''/'' \<notin> set b" "BSLASH \<notin> set b" "name \<in> {b, dir @ CHR ''/'' # b, dir @ BSLASH # b}"
  shows "resolve_data_file cat files (Some name) =
    (case map_of files b of Some d \<Rightarrow> Some d
     | None \<Rightarrow> (case lookup cat (''@crs-data/'' @ b) of None \<Rightarrow> None | Some a \<Rightarrow> asset_data a))"
proof -
  have "base_name name = b" "name \<noteq> []"
    using assms base_name_path(1,2) [OF assms(2,3), of dir] base_name_path(3) [OF assms(2,3)] by auto
  with assms(1) show ?thesis
    by (cases files) (simp_all add: resolve_data_file_def)
qed

lemma resolve_by_base_name_witness:
  "resolve_data_file \<lparr>catalog_mode = None, catalog_assets = []\<rparr> [(''ip.data'', ''10.0.0.1'')]
     (Some (''../rules'' @ CHR ''/'' # ''ip.data'')) = Some ''10.0.0.1''"
  by (subst resolve_by_base_name [of "''ip.data''" _ "''../rules''"]) simp_all

end
