(* ===== verification/Rules_Engine.thy ===== *)
theory Rules_Engine
  imports Rule_Plan Log_Lines Vfs
begin

text \<open>
  The chunk loader that the configure step uses (\<^verbatim>\<open>loadRuleChunk\<close> in
  \<^verbatim>\<open>src/src/modsecurity_proxy_wasm.cc\<close>), and what it means for \<^verbatim>\<open>applyWafConfiguration\<close>.

  \<^verbatim>\<open>RulesSet\<close> belongs to libModSecurity: its state is of an arbitrary type, \<open>rs_load\<close> is
  \<^verbatim>\<open>load(text, ref)\<close> with its return code, \<open>rs_error\<close> the text of \<^verbatim>\<open>m_parserError\<close>,
  \<open>rs_new\<close> a new rules set.
\<close>

section \<open>The loader\<close>

record 'r rules_set =
  rs_new :: 'r
  rs_load :: "string \<Rightarrow> string \<Rightarrow> 'r \<Rightarrow> int \<times> 'r"
  rs_error :: "'r \<Rightarrow> string"

definition preview_char :: "char \<Rightarrow> char" where
  "preview_char c = (if c = LF \<or> c = CR then CHR '' '' else c)"

definition log_loading :: "host \<Rightarrow> string \<Rightarrow> nat \<Rightarrow> trace \<Rightarrow> trace" where
  "log_loading h lab n_bytes tr =
     logHeapSample h ''rules_loading'' (Some lab) n_bytes
       (logJson False ''rules_loading''
         (str_member ''label'' lab @ '','' @ raw_member ''bytes'' (nat_to_string n_bytes) @ '','' @
          raw_member ''wasm_heap_bytes'' (wasmHeapBytes h tr)) tr)"

definition log_preview :: "string \<Rightarrow> string \<Rightarrow> trace \<Rightarrow> trace" where
  "log_preview lab data tr =
     logJson False ''rules_preview''
       (str_member ''label'' lab @ '','' @ str_member ''preview'' (map preview_char data)) tr"

definition loadRuleChunk :: "host \<Rightarrow> 'r rules_set \<Rightarrow> ('r \<times> trace) chunk_load" where
  "loadRuleChunk h rs label data user err =
     (case user of (rules, tr) \<Rightarrow>
      if data = [] then (True, (rules, tr), err)
      else
        (let lab = (if label \<noteq> [] then label else ''(anonymous)'');
             n_bytes = length data;
             log_progress = (lab \<noteq> ''inline-directives'');
             tr1 = (if log_progress then log_loading h lab n_bytes tr else tr);
             tr2 = (if log_progress \<and> 0 < n_bytes \<and> n_bytes < 512 then log_preview lab data tr1 else tr1);
             ref = ruleRefPath (Some label);
             (ret, rules') = rs_load rs (c_str data) ref rules;
             tr3 = tr2 @ [LoadRules (c_str data) ref]
         in if ret < 0 then
              (let err1 = rs_error rs rules';
                   err' = (if err1 = [] then ''RulesSet::load failed for '' @ lab else err1)
               in (False, (rules', logJson True ''rules_load_failed''
                    (str_member ''label'' lab @ '','' @ str_member ''error'' err' @ '','' @
                     raw_member ''wasm_heap_bytes'' (wasmHeapBytes h tr3)) tr3), err'))
            else if log_progress then
              (True, (rules', logHeapSample h ''rules_loaded'' (Some lab) n_bytes
                 (logJson False ''rules_loaded''
                   (str_member ''label'' lab @ '','' @
                    raw_member ''wasm_heap_bytes'' (wasmHeapBytes h tr3)) tr3)), err)
            else (True, (rules', tr3), err)))"

text \<open>The loader keeps the contract that the rule loading needs.\<close>

lemma loadRuleChunk_contract:
  "loadRuleChunk h rs l d u e = (True, u', e') \<Longrightarrow> e' = e"
  "loadRuleChunk h rs l d u e = (False, u', e') \<Longrightarrow> e' \<noteq> []"
  by (auto simp: loadRuleChunk_def Let_def split: prod.splits if_splits)

interpretation engine: chunk_loader "loadRuleChunk h rs" for h and rs :: "'r rules_set"
  by unfold_locales (fact loadRuleChunk_contract)+

section \<open>What reaches the engine\<close>

fun loaded_rules :: "effect \<Rightarrow> string" where
  "loaded_rules (LoadRules rules ref) = rules"
| "loaded_rules _ = []"

definition rules_text :: "trace \<Rightarrow> string" where
  "rules_text tr = concat (map loaded_rules tr)"

lemma rules_text_simps [simp]:
  "rules_text [] = []" "rules_text (a @ b) = rules_text a @ rules_text b"
  "rules_text (e # tr) = loaded_rules e @ rules_text tr"
  by (simp_all add: rules_text_def)

lemma rules_text_log [simp]:
  "rules_text (logJson e ev m tr) = rules_text tr"
  "rules_text (logHeapSample h st l b tr) = rules_text tr"
  by (simp_all add: logHeapSample_def logJson_def Let_def)

lemma loadRuleChunk_text:
  "loadRuleChunk h rs l d (r, tr) e = (ok, (r', tr'), e') \<Longrightarrow> rules_text tr' = rules_text tr @ c_str d"
  by (auto simp: loadRuleChunk_def log_loading_def log_preview_def c_str_def Let_def
      split: prod.splits if_splits)

lemma run_chunks_text:
  "run_chunks (loadRuleChunk h rs) cs (r, tr) = (True, (r', tr'), e) \<Longrightarrow>
   rules_text tr' = rules_text tr @ concat (map (\<lambda>c. c_str (snd c)) cs)"
proof (induction cs arbitrary: r tr)
  case (Cons c cs)
  obtain l d where c: "c = (l, d)" by (cases c)
  obtain ok r1 tr1 e1 where s: "loadRuleChunk h rs l d (r, tr) [] = (ok, (r1, tr1), e1)"
    by (metis prod.collapse)
  with Cons.prems c have "run_chunks (loadRuleChunk h rs) cs (r1, tr1) = (True, (r', tr'), e)"
    by (cases ok) simp_all
  from Cons.IH [OF this] loadRuleChunk_text [OF s] c show ?case by simp
qed simp

lemma c_str_id: "NUL \<notin> set s \<Longrightarrow> c_str s = s"
  unfolding c_str_def by (rule takeWhile_eq_all_conv [THEN iffD2]) auto

lemma c_str_chunks:
  "NUL \<notin> set (concat (map snd cs)) \<Longrightarrow> concat (map (\<lambda>c. c_str (snd c)) cs) = concat (map snd cs)"
  by (induction cs) (auto simp: c_str_id)

lemma applyJsonConfig_engine:
  "applyJsonConfig zl cat (Some (loadRuleChunk h rs)) json u [] =
     map_option (\<lambda>ds. case apply_directives cat (Some recorder) [] [] ds of (ok, chunks, err) \<Rightarrow>
        outcome ok err (run_chunks (loadRuleChunk h rs) chunks u))
     (loadDirectiveList zl json (default_profile json))"
  unfolding applyJsonConfig_def
  by (rule option.map_cong [OF refl]) (rule engine.apply_directives_follows)

text \<open>A configuration that is applied gives the engine the text of its plan.\<close>

lemma engine_plan:
  assumes "applyJsonConfig zl cat (Some (loadRuleChunk h rs)) json (rules, tr) [] = Some (True, (rules', tr'), err)"
  shows "\<exists>ds items. loadDirectiveList zl json (default_profile json) = Some (Inr ds) \<and>
    plan cat {} (concat (map splitDirectiveLines ds)) = (items, None) \<and> err = [] \<and>
    (NUL \<notin> set (concat (map item_loaded items)) \<longrightarrow>
      rules_text tr' = rules_text tr @ concat (map item_loaded items))"
proof -
  from assms obtain r where l: "loadDirectiveList zl json (default_profile json) = Some r"
    and o: "(case apply_directives cat (Some recorder) [] [] r of (ok, chunks, err) \<Rightarrow>
        outcome ok err (run_chunks (loadRuleChunk h rs) chunks (rules, tr))) = (True, (rules', tr'), err)"
    unfolding applyJsonConfig_engine map_option_eq_Some by blast
  obtain ds where r: "r = Inr ds"
  proof (cases r)
    case (Inl e)
    with o show ?thesis by (simp add: apply_directives_def outcome_def)
  qed (rule that)
  let ?p = "plan cat {} (concat (map splitDirectiveLines ds))"
  obtain chunks where c: "apply_directives cat (Some recorder) [] [] (Inr ds) =
      (snd ?p = None, chunks, case snd ?p of None \<Rightarrow> [] | Some e \<Rightarrow> e)"
    "concat (map snd chunks) = concat (map item_loaded (fst ?p))"
    by (rule apply_directives_plan)
  obtain all u e where run: "run_chunks (loadRuleChunk h rs) chunks (rules, tr) = (all, u, e)"
    by (metis prod.collapse)
  with o r c have ok: "all" "u = (rules', tr')" "snd ?p = None" "err = []"
    by (auto simp: outcome_def split: if_splits)
  from run ok have "rules_text tr' = rules_text tr @ concat (map (\<lambda>c. c_str (snd c)) chunks)"
    by (intro run_chunks_text) simp
  moreover have "?p = (fst ?p, None)" using ok(3) by (metis prod.collapse)
  ultimately show ?thesis using l r ok(4) c(2) c_str_chunks [of chunks] by metis
qed

section \<open>A small configuration for the witnesses\<close>

definition demo_host :: host where
  "demo_host = \<lparr>define_metric = (\<lambda>tr k n. Some (length tr)), heap_size = (\<lambda>tr. 1), set_filter_state = (\<lambda>tr k v. True)\<rparr>"

definition demo_rules :: "string rules_set" where
  "demo_rules = \<lparr>rs_new = [], rs_load = (\<lambda>rules ref r. (0, r @ rules)), rs_error = (\<lambda>r. [])\<rparr>"

definition demo_catalog :: catalog where
  "demo_catalog = \<lparr>catalog_mode = Some ''path-b'',
     catalog_assets = [\<lparr>asset_path = ''@demo-conf'', asset_data = Some ''SecAction x''\<rparr>]\<rparr>"

definition demo_files :: "(string \<times> string) list" where
  "demo_files = [(''ip.data'', ''10.0.0.1'')]"

definition demo_tail :: string where
  "demo_tail = '','' @ quoted ''mode'' @ '':'' @ quoted ''kubewaf'' @ '','' @
     quoted ''directives_map'' @ '':{'' @ quoted ''default'' @ '':['' @
     quoted ''Include @demo-conf'' @ '','' @ quoted ''SecB'' @ '']}}''"

definition demo_json :: string where
  "demo_json = ''{'' @ quoted ''data_files'' @ '':{'' @ file_members demo_files @ CHR ''}'' # demo_tail"

lemma demo_list: "loadDirectiveList stored_zlib demo_json ''default'' = Some (Inr [''Include @demo-conf'', ''SecB''])"
  by code_simp

lemma demo_prof: "default_profile demo_json = ''default''"
  by code_simp

lemma demo_lines: "concat (map splitDirectiveLines [''Include @demo-conf'', ''SecB'']) = [''Include @demo-conf'', ''SecB'']"
  by code_simp

lemma demo_load:
  "\<exists>tr. applyJsonConfig stored_zlib demo_catalog (Some (loadRuleChunk demo_host demo_rules)) demo_json ([], t0) [] =
     Some (True, (''SecAction xSecB'' @ [LF], tr), [])"
  unfolding applyJsonConfig_def demo_prof demo_list option.map apply_directives_def sum.case demo_lines
  by (simp add: apply_line_def trim_def is_space_def flushInline_def load_start_def resolveIncludeLoad_def
     loadAsset_def loadChunk_def demo_catalog_def lookup_def loadRuleChunk_def Let_def demo_rules_def
     ruleRefPath_def c_str_def is_file_phrase_op_def line_requests_chain_def contains_def find_str_def append_line_def kMaxInlineChunkBytes_def substr_def)

section \<open>Properties\<close>

text \<open>
  C17: when a JSON configuration is applied successfully, the engine was
  given exactly the text of the plan of its directives, in order, each include once (as far as
  the text holds no NUL byte, where a C string ends), the plan has no error, and no error is
  reported.
\<close>

theorem engine_gets_the_plan:
  assumes "applyJsonConfig zl cat (Some (loadRuleChunk h rs)) json (rules, tr) [] = Some (True, (rules', tr'), err)"
  shows "\<exists>ds items. loadDirectiveList zl json (default_profile json) = Some (Inr ds) \<and>
    plan cat {} (concat (map splitDirectiveLines ds)) = (items, None) \<and> err = [] \<and>
    (NUL \<notin> set (concat (map item_loaded items)) \<longrightarrow>
      rules_text tr' = rules_text tr @ concat (map item_loaded items))"
  using assms by (rule engine_plan)

lemma engine_gets_the_plan_witness:
  "\<exists>tr' ds items. loadDirectiveList stored_zlib demo_json (default_profile demo_json) = Some (Inr ds) \<and>
    plan demo_catalog {} (concat (map splitDirectiveLines ds)) = (items, None) \<and>
    (NUL \<notin> set (concat (map item_loaded items)) \<longrightarrow>
      rules_text tr' = rules_text [] @ concat (map item_loaded items))"
proof -
  obtain tr where "applyJsonConfig stored_zlib demo_catalog (Some (loadRuleChunk demo_host demo_rules))
      demo_json ([], []) [] = Some (True, (''SecAction xSecB'' @ [LF], tr), [])"
    using demo_load by blast
  from engine_gets_the_plan [OF this] show ?thesis by blast
qed

lemma run_chunks_no_error: "run_chunks load cs u = (True, u', e) \<Longrightarrow> e = []"
  by (induction cs arbitrary: u) (auto split: prod.splits if_splits)


text \<open>
  C31: including a target again, after it was loaded, succeeds and changes
  nothing: neither the rules nor the log nor the set of included paths.
\<close>

theorem include_loaded_once:
  assumes "ls_error s = []" "resolveIncludeLoad cat (Some (loadRuleChunk h rs)) target s = (True, s')"
  shows "resolveIncludeLoad cat (Some (loadRuleChunk h rs)) target s' = (True, s')"
proof -
  have "engine.incs.resolve_all cat h rs [target] s = (True, s')"
    using assms(2) by simp
  from engine.incs.resolve_all_again [OF assms(1) this, of "[target]"]
  show ?thesis by (simp add: and_then_def split: prod.splits if_splits)
qed

lemma include_loaded_once_witness:
  "let s = snd (resolveIncludeLoad demo_catalog (Some (loadRuleChunk demo_host demo_rules)) ''@demo-conf''
       (load_start ([], []) []))
   in resolveIncludeLoad demo_catalog (Some (loadRuleChunk demo_host demo_rules)) ''@demo-conf'' s = (True, s)"
proof -
  have "fst (resolveIncludeLoad demo_catalog (Some (loadRuleChunk demo_host demo_rules)) ''@demo-conf''
      (load_start ([], []) []))"
    by (simp add: load_start_def resolveIncludeLoad_def loadAsset_def loadChunk_def demo_catalog_def
        lookup_def loadRuleChunk_def Let_def demo_rules_def)
  then show ?thesis unfolding Let_def
    by (intro include_loaded_once [where s = "load_start ([], []) []"])
      (simp_all add: load_start_def prod_eq_iff)
qed

end
