(* ===== verification/Plugin_Options.thy ===== *)
theory Plugin_Options
  imports Json_Scan
begin

text \<open>
  The plugin options of \<^verbatim>\<open>src/src/waf_config.h\<close> and the functions of
  \<^verbatim>\<open>src/src/waf_config.cc\<close> that read them from the configuration text: metrics, block replies,
  telemetry, transforms, the operator's identity and the fallback switch.
\<close>

section \<open>Option records and their defaults\<close>

record WafMetricOptions =
  labels :: "(string \<times> string) list"
  enabled :: bool
  per_rule_id :: bool
  rule_tags :: bool
  dual_prefix :: bool

record WafBlockOptions =
  message :: string
  status :: int
  blocked_header :: string
  add_rule_id_header :: bool
  rule_id_header :: string
  add_request_id_header :: bool
  request_id_header :: string

record WafTelemetryOptions =
  tel_mode :: string
  traces_enabled :: bool
  sample_rate :: double
  sample_disruptive :: double
  redact :: bool
  include_match_data :: bool

record WafPluginOptions =
  metrics :: WafMetricOptions
  block :: WafBlockOptions
  telemetry :: WafTelemetryOptions
  mode :: string
  config_id :: string
  allow_fallback :: bool
  fullwidth_normalize :: bool

definition default_metric_options :: WafMetricOptions where
  "default_metric_options = \<lparr>labels = [], enabled = True, per_rule_id = False, rule_tags = False,
     dual_prefix = False\<rparr>"

definition default_block_options :: WafBlockOptions where
  "default_block_options = \<lparr>message = ''Forbidden'', status = 0, blocked_header = ''x-blocked'',
     add_rule_id_header = False, rule_id_header = ''x-blocked-rule-id'',
     add_request_id_header = False, request_id_header = ''x-request-id''\<rparr>"

definition default_telemetry_options :: WafTelemetryOptions where
  "default_telemetry_options = \<lparr>tel_mode = [], traces_enabled = False, sample_rate = Fin (1 / 4),
     sample_disruptive = Fin 1, redact = True, include_match_data = False\<rparr>"

definition default_plugin_options :: WafPluginOptions where
  "default_plugin_options = \<lparr>metrics = default_metric_options, block = default_block_options,
     telemetry = default_telemetry_options, mode = [], config_id = [], allow_fallback = False,
     fullwidth_normalize = True\<rparr>"

section \<open>The operator's identity\<close>

definition identity_label :: "(string \<times> string) list \<Rightarrow> bool" where
  "identity_label ls = list_ex (\<lambda>kv. fst kv = ''waf_name'' \<or> fst kv = ''waf_namespace'') ls"

definition kubewaf_id :: "string \<Rightarrow> bool" where
  "kubewaf_id cid \<longleftrightarrow> cid \<noteq> [] \<and> starts_with cid ''kubewaf/''"

text \<open>The options are a pointer that may be null.\<close>

definition hasKubeWafIdentity :: "string \<Rightarrow> WafPluginOptions option \<Rightarrow> bool" where
  "hasKubeWafIdentity config opts =
     (if (case opts of None \<Rightarrow> False
          | Some p \<Rightarrow> mode p = ''kubewaf'' \<or> kubewaf_id (config_id p) \<or> identity_label (labels (metrics p)))
      then True
      else if \<not> looksLikeJson (trim config) then False
      else if extractJsonStringValue config ''mode'' = ''kubewaf'' then True
      else if kubewaf_id (extractJsonStringValue config ''config_id'') then True
      else (case extractMetricLabels config of None \<Rightarrow> False | Some ls \<Rightarrow> identity_label ls))"

section \<open>Reading the options\<close>

text \<open>
  \<^verbatim>\<open>extractMetricLabels\<close> leaves the labels cleared when it returns false.
\<close>

definition fillMetricOptions :: "string \<Rightarrow> WafMetricOptions" where
  "fillMetricOptions config =
     (let out = default_metric_options in
      if \<not> looksLikeJson (trim config) then out
      else
        (let out = out\<lparr>labels := (case extractMetricLabels config of None \<Rightarrow> [] | Some ls \<Rightarrow> ls)\<rparr>;
             out = (case extractJsonObjectSlice config ''metrics'' of
                 Some metrics_obj \<Rightarrow>
                   out\<lparr>enabled := extractJsonBoolValue metrics_obj ''enabled'' True,
                       per_rule_id := extractJsonBoolValue metrics_obj ''per_rule_id'' False,
                       rule_tags := extractJsonBoolValue metrics_obj ''rule_tags'' False,
                       dual_prefix := extractJsonBoolValue metrics_obj ''dual_prefix'' False\<rparr>
               | None \<Rightarrow>
                   out\<lparr>per_rule_id := extractJsonBoolValue config ''metrics_per_rule_id'' False,
                       rule_tags := extractJsonBoolValue config ''metrics_rule_tags'' False,
                       enabled := extractJsonBoolValue config ''metrics_enabled'' True\<rparr>);
             out = (if contains config (quoted ''metrics_per_rule_id'')
               then out\<lparr>per_rule_id := extractJsonBoolValue config ''metrics_per_rule_id'' (per_rule_id out)\<rparr>
               else out)
         in if contains config (quoted ''metrics_rule_tags'')
            then out\<lparr>rule_tags := extractJsonBoolValue config ''metrics_rule_tags'' (rule_tags out)\<rparr>
            else out))"

definition fillTransformOptions :: "string \<Rightarrow> bool" where
  "fillTransformOptions config =
     (if \<not> looksLikeJson (trim config) then True
      else (case extractJsonObjectSlice config ''transforms'' of
          Some transforms_obj \<Rightarrow> extractJsonBoolValue transforms_obj ''fullwidth_normalize'' True
        | None \<Rightarrow>
            (if contains config (quoted ''fullwidth_normalize'')
             then extractJsonBoolValue config ''fullwidth_normalize'' True else True)))"

definition fillTelemetryOptions :: "string \<Rightarrow> WafTelemetryOptions" where
  "fillTelemetryOptions config =
     (let out = default_telemetry_options in
      if \<not> looksLikeJson (trim config) then out
      else (case extractJsonObjectSlice config ''telemetry'' of None \<Rightarrow> out
        | Some tel \<Rightarrow>
            (let out = out\<lparr>tel_mode := extractJsonStringValue tel ''mode''\<rparr> in
             case extractJsonObjectSlice tel ''traces'' of None \<Rightarrow> out
             | Some traces \<Rightarrow>
                 out\<lparr>traces_enabled := extractJsonBoolValue traces ''enabled'' False,
                     sample_rate := extractJsonNumberValue traces ''sample_rate'' (Fin (1 / 4)),
                     sample_disruptive := extractJsonNumberValue traces ''sample_disruptive'' (Fin 1),
                     redact := extractJsonBoolValue traces ''redact'' True,
                     include_match_data := extractJsonBoolValue traces ''include_match_data'' False\<rparr>)))"

definition fillBlockOptions :: "string \<Rightarrow> WafBlockOptions" where
  "fillBlockOptions config =
     (let out = default_block_options in
      if \<not> looksLikeJson (trim config) then out
      else (case extractJsonObjectSlice config ''block'' of
          Some block_obj \<Rightarrow>
            (let msg = extractJsonStringValue block_obj ''message'';
                 out = (if msg \<noteq> [] then out\<lparr>message := msg\<rparr> else out);
                 out = out\<lparr>status := extractJsonIntValue block_obj ''status'' 0\<rparr>;
                 out = (if contains block_obj (quoted ''blocked_header'')
                   then out\<lparr>blocked_header := extractJsonStringValue block_obj ''blocked_header''\<rparr> else out);
                 out = out\<lparr>add_rule_id_header := extractJsonBoolValue block_obj ''add_rule_id_header'' False\<rparr>;
                 hdr = extractJsonStringValue block_obj ''rule_id_header'';
                 out = (if hdr \<noteq> [] then out\<lparr>rule_id_header := hdr\<rparr> else out);
                 out = out\<lparr>add_request_id_header := extractJsonBoolValue block_obj ''add_request_id_header'' False\<rparr>;
                 req_hdr = extractJsonStringValue block_obj ''request_id_header''
             in if req_hdr \<noteq> [] then out\<lparr>request_id_header := req_hdr\<rparr> else out)
        | None \<Rightarrow>
            (let msg = extractJsonStringValue config ''block_message''
             in if msg \<noteq> [] then out\<lparr>message := msg\<rparr> else out)))"

definition parseWafMetricOptions :: "string \<Rightarrow> WafMetricOptions" where
  "parseWafMetricOptions config = fillMetricOptions config"

definition parseWafPluginOptions :: "string \<Rightarrow> WafPluginOptions" where
  "parseWafPluginOptions config =
     (if \<not> looksLikeJson (trim config) then default_plugin_options
      else
        (let out = default_plugin_options
               \<lparr>metrics := fillMetricOptions config,
                block := fillBlockOptions config,
                telemetry := fillTelemetryOptions config,
                fullwidth_normalize := fillTransformOptions config,
                mode := extractJsonStringValue config ''mode'',
                config_id := extractJsonStringValue config ''config_id'',
                allow_fallback := extractJsonBoolValue config ''allow_fallback'' False\<rparr>
         in if hasKubeWafIdentity config (Some out) then
              (let out = out\<lparr>allow_fallback := False\<rparr>;
                   out = (if message (block out) = ''blocked by modsecurity'' \<or>
                       message (block out) = ''blocked by kubeWAF''
                     then out\<lparr>block := (block out)\<lparr>message := ''Forbidden''\<rparr>\<rparr> else out);
                   dual_explicit = (contains config (quoted ''dual_prefix'') \<or>
                     contains config (quoted ''metrics_dual_prefix''))
               in if \<not> dual_explicit then out\<lparr>metrics := (metrics out)\<lparr>dual_prefix := True\<rparr>\<rparr> else out)
            else out))"

definition wafConfigAllowsFallback :: "string \<Rightarrow> bool" where
  "wafConfigAllowsFallback config =
     (if \<not> looksLikeJson (trim config) then False
      else if hasKubeWafIdentity config None then False
      else extractJsonBoolValue config ''allow_fallback'' False)"

section \<open>One notion of identity\<close>

text \<open>
  The identity as the code reads it. What the text has to look like for it, without the code's
  own search, is \<open>marks_operator\<close> below.
\<close>

definition operator_driven :: "string \<Rightarrow> bool" where
  "operator_driven config \<longleftrightarrow> looksLikeJson config \<and>
     (extractJsonStringValue config ''mode'' = ''kubewaf'' \<or>
      kubewaf_id (extractJsonStringValue config ''config_id'') \<or>
      (\<exists>v. (''waf_name'', v) \<in> set (labels (fillMetricOptions config)) \<or>
           (''waf_namespace'', v) \<in> set (labels (fillMetricOptions config))))"

lemma looksLikeJson_trim [simp]: "looksLikeJson (trim s) = looksLikeJson s"
  by (simp add: looksLikeJson_def)

lemma identity_label_iff:
  "identity_label ls \<longleftrightarrow> (\<exists>v. (''waf_name'', v) \<in> set ls \<or> (''waf_namespace'', v) \<in> set ls)"
  by (force simp: identity_label_def list_ex_iff)

lemma labels_filled:
  "looksLikeJson config \<Longrightarrow> labels (fillMetricOptions config) =
     (case extractMetricLabels config of None \<Rightarrow> [] | Some ls \<Rightarrow> ls)"
  by (simp add: fillMetricOptions_def Let_def split: option.splits)

lemma hasKubeWafIdentity_text: "hasKubeWafIdentity config None = operator_driven config"
  by (auto simp: hasKubeWafIdentity_def operator_driven_def labels_filled identity_label_iff
      split: option.splits)

lemma hasKubeWafIdentity_opts:
  assumes "looksLikeJson config" "mode opts = extractJsonStringValue config ''mode''"
    "config_id opts = extractJsonStringValue config ''config_id''" "metrics opts = fillMetricOptions config"
  shows "hasKubeWafIdentity config (Some opts) = operator_driven config"
  using assms unfolding hasKubeWafIdentity_text [symmetric]
  by (auto simp: hasKubeWafIdentity_def labels_filled identity_label_def split: option.splits)

lemma parse_identity:
  assumes "looksLikeJson config"
  shows "parseWafPluginOptions config =
    (let out = \<lparr>metrics = fillMetricOptions config, block = fillBlockOptions config,
         telemetry = fillTelemetryOptions config, mode = extractJsonStringValue config ''mode'',
         config_id = extractJsonStringValue config ''config_id'',
         allow_fallback = extractJsonBoolValue config ''allow_fallback'' False,
         fullwidth_normalize = fillTransformOptions config\<rparr>
     in if operator_driven config then
          out\<lparr>allow_fallback := False,
              block := (if message (block out) \<in> {''blocked by modsecurity'', ''blocked by kubeWAF''}
                then (block out)\<lparr>message := ''Forbidden''\<rparr> else block out),
              metrics := (if contains config (quoted ''dual_prefix'') \<or>
                  contains config (quoted ''metrics_dual_prefix'')
                then metrics out else (metrics out)\<lparr>dual_prefix := True\<rparr>)\<rparr>
        else out)"
  using assms by (simp add: parseWafPluginOptions_def hasKubeWafIdentity_opts default_plugin_options_def
      Let_def)

section \<open>Properties\<close>

text \<open>
  The operator's marks, as a writer of the configuration puts them there: the first
  \<^verbatim>\<open>"mode"\<close> of the text is \<^verbatim>\<open>"kubewaf"\<close>, the first \<^verbatim>\<open>"config_id"\<close> starts with
  \<^verbatim>\<open>kubewaf/\<close>, or the object of the first \<^verbatim>\<open>"metric_labels"\<close> names the WAF.
\<close>

definition marks_operator :: "string \<Rightarrow> bool" where
  "marks_operator config \<longleftrightarrow> looksLikeJson config \<and>
     (names config ''mode'' ''kubewaf'' \<or>
      (\<exists>i. names config ''config_id'' (''kubewaf/'' @ i)) \<or>
      (\<exists>kvs v. labels_written config kvs \<and> ((''waf_name'', v) \<in> set kvs \<or> (''waf_namespace'', v) \<in> set kvs)))"

text \<open>The first \<^verbatim>\<open>"allow_fallback"\<close> of the text has \<^verbatim>\<open>true\<close> behind its colon.\<close>

definition asks_fallback :: "string \<Rightarrow> bool" where
  "asks_fallback config \<longleftrightarrow> (\<exists>pre w t. config = pre @ quoted ''allow_fallback'' @ w @ '':'' @ t \<and>
     find_str config (quoted ''allow_fallback'') 0 = Some (length pre) \<and>
     CHR '':'' \<notin> set w \<and> starts_with (trim t) ''true'')"

text \<open>No key of the text can carry a mark.\<close>

definition free_of_marks :: "string \<Rightarrow> bool" where
  "free_of_marks config \<longleftrightarrow>
     (\<forall>key \<in> {''mode'', ''config_id'', ''metric_labels''}. \<nexists>a b. config = a @ quoted key @ b)"

lemma marks_seen:
  assumes "marks_operator config"
  shows "operator_driven config"
proof -
  from assms have j: "looksLikeJson config" by (simp add: marks_operator_def)
  from assms consider "names config ''mode'' ''kubewaf''"
    | i where "names config ''config_id'' (''kubewaf/'' @ i)"
    | kvs v where "labels_written config kvs" "(''waf_name'', v) \<in> set kvs \<or> (''waf_namespace'', v) \<in> set kvs"
    unfolding marks_operator_def by blast
  then show ?thesis
  proof cases
    case 1
    then show ?thesis using j names_value by (simp add: operator_driven_def)
  next
    case 2
    then have "kubewaf_id (extractJsonStringValue config ''config_id'')"
      by (simp add: names_value kubewaf_id_def)
    then show ?thesis using j by (simp add: operator_driven_def)
  next
    case 3
    then have "(''waf_name'', concat (map decoded v)) \<in> set (labels (fillMetricOptions config)) \<or>
        (''waf_namespace'', concat (map decoded v)) \<in> set (labels (fillMetricOptions config))"
      by (force simp: labels_filled [OF j] metric_labels_read)
    then show ?thesis using j unfolding operator_driven_def by blast
  qed
qed

lemma absent_key: "(\<nexists>a b. config = a @ n @ b) \<Longrightarrow> find_str config n 0 = None"
  by (simp add: find_str_def find_sub_None)

lemma free_of_marks_seen:
  assumes "looksLikeJson config" "free_of_marks config"
  shows "\<not> operator_driven config"
proof -
  have n: "find_str config (quoted key) 0 = None"
    if "key \<in> {''mode'', ''config_id'', ''metric_labels''}" for key
    using assms(2) that unfolding free_of_marks_def by (intro absent_key) blast
  have "extractMetricLabels config = Some []"
  proof (cases "config = []")
    case False
    then show ?thesis unfolding extractMetricLabels_def extractJsonObjectSlice_def
      by (subst slice_loop.simps) (simp add: n)
  qed (use assms in \<open>simp add: looksLikeJson_def trim_def\<close>)
  then show ?thesis using n [of "''mode''"] n [of "''config_id''"]
    by (simp add: operator_driven_def labels_filled [OF assms(1)] extractJsonStringValue_def kubewaf_id_def)
qed

lemma fallback_read: "extractJsonBoolValue config ''allow_fallback'' False = asks_fallback config"
proof
  assume r: "extractJsonBoolValue config ''allow_fallback'' False"
  let ?q = "quoted ''allow_fallback''"
  from r obtain pos colon where p: "find_str config ?q 0 = Some pos"
    and c: "find_char config (CHR '':'') (pos + length ?q) = Some colon"
    and t: "starts_with (trim (drop (colon + 1) config)) ''true''"
    by (auto simp: extractJsonBoolValue_def value_tail_def Let_def split: option.splits if_splits)
  obtain rest where d: "drop pos config = ?q @ rest"
    using find_str_at [OF p] by (auto simp: starts_with_iff)
  have pl: "pos + length ?q \<le> length config" using find_str_bounds [OF p] by simp
  have rest: "rest = drop (pos + length ?q) config"
    using arg_cong [OF d, of "drop (length ?q)"] by (simp add: add.commute)
  obtain i where i: "find_idx (\<lambda>x. x = CHR '':'') rest = Some i" "colon = pos + length ?q + i"
    using c rest by (auto simp: find_char_def find_pos_def)
  have il: "i < length rest" "rest ! i = CHR '':''" "\<forall>j < i. rest ! j \<noteq> CHR '':''"
    using i(1) by (auto simp: find_idx_Some)
  have "rest = take i rest @ '':'' @ drop (Suc i) rest" using il(1,2) id_take_nth_drop [OF il(1)] by simp
  moreover have "drop (Suc i) rest = drop (colon + 1) config"
    by (simp add: rest i(2) ac_simps)
  moreover have "config = take pos config @ ?q @ rest" using d append_take_drop_id [of pos config] by simp
  ultimately have "config = take pos config @ ?q @ take i rest @ '':'' @ drop (colon + 1) config" by simp
  moreover have "length (take pos config) = pos" using pl by simp
  moreover have "CHR '':'' \<notin> set (take i rest)" using il(1,3) by (auto simp: in_set_conv_nth)
  ultimately show "asks_fallback config" unfolding asks_fallback_def using p t by metis
next
  assume "asks_fallback config"
  then obtain pre w t where c: "config = pre @ quoted ''allow_fallback'' @ w @ '':'' @ t"
    "find_str config (quoted ''allow_fallback'') 0 = Some (length pre)"
    and w: "CHR '':'' \<notin> set w" and t: "starts_with (trim t) ''true''"
    unfolding asks_fallback_def by (elim conjE exE) (rule that; assumption)
  let ?p = "pre @ quoted ''allow_fallback''"
  have c1: "config = ?p @ w @ CHR '':'' # t" using c(1) by simp
  have k: "find_char config (CHR '':'') (length pre + length (quoted ''allow_fallback'')) = Some (length (?p @ w))"
    using find_char_past [OF w, of ?p t] unfolding c1 by simp
  have d: "drop (length (?p @ w) + 1) config = t" unfolding c1 by simp
  show "extractJsonBoolValue config ''allow_fallback'' False"
    unfolding extractJsonBoolValue_def value_tail_def c(2) option.case k d using t by (simp add: Let_def)
qed

lemma fallback_decided:
  "allow_fallback (parseWafPluginOptions config) = wafConfigAllowsFallback config"
  "wafConfigAllowsFallback config = (looksLikeJson config \<and> \<not> operator_driven config \<and> asks_fallback config)"
proof -
  have "allow_fallback (parseWafPluginOptions config) = wafConfigAllowsFallback config \<and>
    wafConfigAllowsFallback config = (looksLikeJson config \<and> \<not> operator_driven config \<and> asks_fallback config)"
  proof (cases "looksLikeJson config")
    case True
    then show ?thesis
      by (simp add: parse_identity wafConfigAllowsFallback_def hasKubeWafIdentity_text fallback_read Let_def)
  next
    case False
    then show ?thesis
      by (simp add: parseWafPluginOptions_def wafConfigAllowsFallback_def default_plugin_options_def)
  qed
  then show "allow_fallback (parseWafPluginOptions config) = wafConfigAllowsFallback config"
    and "wafConfigAllowsFallback config = (looksLikeJson config \<and> \<not> operator_driven config \<and> asks_fallback config)"
    by simp_all
qed


definition operator_text :: string where
  "operator_text = ''{'' @ quoted ''mode'' @ '': '' @ quoted ''kubewaf'' @ '','' @
     quoted ''allow_fallback'' @ '': true}''"

lemma operator_text_marked: "marks_operator operator_text"
proof -
  have "operator_text = ''{'' @ quoted ''mode'' @ [] @ '':'' @ '' '' @ quoted ''kubewaf'' @
      ('','' @ quoted ''allow_fallback'' @ '': true}'')"
    by (simp add: operator_text_def)
  moreover have "find_str operator_text (quoted ''mode'') 0 = Some (length ''{'')" by code_simp
  moreover have "blank []" "blank '' ''" "list_all plain_char ''kubewaf''" by code_simp+
  ultimately have "names operator_text ''mode'' ''kubewaf''" unfolding names_def by blast
  moreover have "looksLikeJson operator_text" by code_simp
  ultimately show ?thesis by (simp add: marks_operator_def)
qed


text \<open>The vendor's own default texts, which the operator's deny replies must not show.\<close>

definition vendor_texts :: "string set" where
  "vendor_texts = {''blocked by modsecurity'', ''blocked by kubeWAF''}"


definition custom_block_text :: string where
  "custom_block_text = ''{'' @ quoted ''mode'' @ '':'' @ quoted ''kubewaf'' @ '','' @ quoted ''block'' @ '':{'' @
     quoted ''message'' @ '':'' @ quoted ''Go away'' @ '','' @ quoted ''status'' @ '':451,'' @
     quoted ''blocked_header'' @ '':'' @ quoted ''x-no'' @ ''}}''"


text \<open>
  The block status is an \<^verbatim>\<open>int\<close> whatever the text says: a number
  that is too large, or none, gives the default 0.
\<close>

theorem block_status_range:
  "int_min \<le> status (block (parseWafPluginOptions config)) \<and>
   status (block (parseWafPluginOptions config)) \<le> int_max"
proof -
  have i: "int_min \<le> extractJsonIntValue t k 0 \<and> extractJsonIntValue t k 0 \<le> int_max" for t k
    by (auto simp: extractJsonIntValue_def Let_def int_min_def int_max_def split: option.splits
        dest: stoi_range [unfolded int_min_def int_max_def])
  have f: "int_min \<le> status (fillBlockOptions config) \<and> status (fillBlockOptions config) \<le> int_max"
    using i by (simp add: fillBlockOptions_def Let_def default_block_options_def int_min_def int_max_def
        split: option.split)
  show ?thesis
  proof (cases "looksLikeJson config")
    case True
    with f show ?thesis by (simp add: parse_identity Let_def)
  next
    case False
    then show ?thesis
      by (simp add: parseWafPluginOptions_def default_plugin_options_def default_block_options_def
          int_min_def int_max_def)
  qed
qed

text \<open>
  Why the marks above are the first occurrences of their keys: the search for a key does not
  look at nesting, so a \<^verbatim>\<open>"mode"\<close> inside an earlier object hides the operator's, and fallback is
  allowed although the configuration names the operator at its top level.
\<close>

lemma nested_mode_hides_operator:
  "wafConfigAllowsFallback (''{'' @ quoted ''telemetry'' @ '':{'' @ quoted ''mode'' @ '':'' @
     quoted ''Managed'' @ ''},'' @ quoted ''mode'' @ '':'' @ quoted ''kubewaf'' @ '','' @
     quoted ''allow_fallback'' @ '':true}'')"
  by code_simp

end
