(* ===== verification/Metrics.thy ===== *)
theory Metrics
  imports Host Plugin_Options
begin

text \<open>
  The metrics of \<^verbatim>\<open>src/src/metrics.cc\<close>: class \<^verbatim>\<open>ModSecMetrics\<close>, its counters and gauges,
  the labels, and the limits on the number of distinct series.
\<close>

section \<open>State\<close>

record ModSecMetrics =
  options :: WafMetricOptions
  label_suffix :: string
  metric_ids :: "string \<rightharpoonup> nat"
  tx_count :: nat
  distinct_rule_metrics :: nat
  distinct_tag_metrics :: nat

definition kMaxDistinctRuleMetrics :: nat where "kMaxDistinctRuleMetrics = 512"
definition kMaxDistinctTagMetrics :: nat where "kMaxDistinctTagMetrics = 128"

definition new_metrics :: ModSecMetrics where
  "new_metrics = \<lparr>options = default_metric_options, label_suffix = [], metric_ids = Map.empty,
     tx_count = 0, distinct_rule_metrics = 0, distinct_tag_metrics = 0\<rparr>"

text \<open>An operation acts on the metrics and appends its effects.\<close>

type_synonym metric_state = "ModSecMetrics \<times> trace"

section \<open>Labels\<close>

definition isReservedIdentityKey :: "string \<Rightarrow> bool" where
  "isReservedIdentityKey k \<longleftrightarrow> k = ''waf_namespace'' \<or> k = ''waf_name'' \<or> k = ''engine'' \<or> k = ''owner''"

definition reserved_fragments :: "string list" where
  "reserved_fragments = [''_waf_namespace='', ''_waf_name='', ''_engine='', ''_owner='',
     ''_phase='', ''_ruleid='', ''_severity='', ''_tag='']"

definition extraLabelUnsafe :: "string \<Rightarrow> string \<Rightarrow> bool" where
  "extraLabelUnsafe k v =
     (if contains k ''='' \<or> contains v ''='' then True
      else (let composed = ''_'' @ k @ ''='' @ v
            in list_ex (\<lambda>f. contains composed f \<or> contains k f \<or> contains v f) reserved_fragments))"

fun label_loop :: "(string \<times> string) list \<Rightarrow> string" where
  "label_loop [] = []"
| "label_loop ((k, v) # kvs) =
     (if \<not> isReservedIdentityKey k \<and> extraLabelUnsafe k v then label_loop kvs
      else ''_'' @ k @ ''='' @ v @ label_loop kvs)"

section \<open>Names\<close>

definition phaseNameFromRule :: "int \<Rightarrow> string" where
  "phaseNameFromRule rule_phase =
     (if rule_phase = 0 then ''http_request_headers''
      else if rule_phase = 1 then ''http_request_body''
      else if rule_phase = 2 then ''http_response_headers''
      else if rule_phase = 3 then ''http_response_body''
      else if rule_phase = 4 then ''http_logging''
      else ''unknown'')"

definition isInterestingRuleTag :: "string \<Rightarrow> bool" where
  "isInterestingRuleTag tag \<longleftrightarrow> tag \<noteq> [] \<and> (starts_with tag ''attack-'' \<or> starts_with tag ''OWASP_CRS'' \<or>
     starts_with tag ''paranoia-level'' \<or> starts_with tag ''kubewaf'' \<or> starts_with tag ''kubewaf/'')"

definition tag_char :: "char \<Rightarrow> bool" where
  "tag_char c \<longleftrightarrow> is_alnum c \<or> c = CHR ''-'' \<or> c = CHR ''_'' \<or> c = CHR ''.''"

fun sanitize_loop :: "string \<Rightarrow> string" where
  "sanitize_loop [] = []"
| "sanitize_loop (c # cs) =
     (if tag_char c then c # sanitize_loop cs
      else if c = CHR ''/'' then CHR ''-'' # sanitize_loop cs
      else sanitize_loop cs)"

definition sanitizeTagForMetric :: "string \<Rightarrow> string" where
  "sanitizeTagForMetric tag =
     (let out = sanitize_loop tag in if out = [] then ''unknown'' else out)"

section \<open>Counters and gauges\<close>

definition incrementCounter :: "host \<Rightarrow> string \<Rightarrow> metric_state \<Rightarrow> metric_state" where
  "incrementCounter h name s = (case s of (m, tr) \<Rightarrow>
     if \<not> enabled (options m) then (m, tr)
     else (case metric_ids m name of
         Some i \<Rightarrow> (m, tr @ [IncrementMetric i])
       | None \<Rightarrow>
         (let tr' = tr @ [DefineMetric Counter name] in
          case define_metric h tr Counter name of
            None \<Rightarrow> (m, tr')
          | Some i \<Rightarrow> (m\<lparr>metric_ids := (metric_ids m)(name \<mapsto> i)\<rparr>, tr' @ [IncrementMetric i]))))"

definition setGauge :: "host \<Rightarrow> string \<Rightarrow> nat \<Rightarrow> metric_state \<Rightarrow> metric_state" where
  "setGauge h name value s = (case s of (m, tr) \<Rightarrow>
     if \<not> enabled (options m) then (m, tr)
     else (case metric_ids m name of
         Some i \<Rightarrow> (m, tr @ [RecordMetric i value])
       | None \<Rightarrow>
         (let tr' = tr @ [DefineMetric Gauge name] in
          case define_metric h tr Gauge name of
            None \<Rightarrow> (m, tr')
          | Some i \<Rightarrow> (m\<lparr>metric_ids := (metric_ids m)(name \<mapsto> i)\<rparr>, tr' @ [RecordMetric i value]))))"

text \<open>The counters of both prefixes, the second only with the dual prefix.\<close>

definition legacy :: "string \<Rightarrow> string" where
  "legacy name = ''modsecurity_proxy_wasm.'' @ name"

definition product :: "string \<Rightarrow> string" where
  "product name = ''kubewaf_waf.'' @ name"

definition count_both :: "host \<Rightarrow> string \<Rightarrow> metric_state \<Rightarrow> metric_state" where
  "count_both h name s =
     (let s1 = incrementCounter h (legacy name) s
      in if dual_prefix (options (fst s1)) then incrementCounter h (product name) s1 else s1)"

definition incrementCoreCounter :: "host \<Rightarrow> string \<Rightarrow> string \<Rightarrow> metric_state \<Rightarrow> metric_state" where
  "incrementCoreCounter h legacy_suffix product_suffix s =
     (if \<not> enabled (options (fst s)) then s
      else (let sfx = label_suffix (fst s);
                s1 = incrementCounter h (legacy (legacy_suffix @ sfx)) s
            in if dual_prefix (options (fst s1))
               then incrementCounter h (product (product_suffix @ sfx)) s1 else s1))"

definition recordWasmMemory :: "host \<Rightarrow> metric_state \<Rightarrow> metric_state" where
  "recordWasmMemory h s =
     (if \<not> enabled (options (fst s)) then s
      else (let heap_bytes = heap_size h (snd s); sfx = label_suffix (fst s);
                s1 = setGauge h (legacy (''memory.wasm_heap_bytes'' @ sfx)) heap_bytes s
            in if dual_prefix (options (fst s1))
               then setGauge h (product (''memory.wasm_heap_bytes'' @ sfx)) heap_bytes s1 else s1))"

definition metrics_configure :: "host \<Rightarrow> WafMetricOptions \<Rightarrow> metric_state \<Rightarrow> metric_state" where
  "metrics_configure h opts s =
     (let m = \<lparr>options = opts, label_suffix = label_loop (labels opts), metric_ids = Map.empty,
            tx_count = 0, distinct_rule_metrics = 0, distinct_tag_metrics = 0\<rparr>
      in if enabled opts then recordWasmMemory h (m, snd s) else (m, snd s))"

text \<open>
  \<^verbatim>\<open>trackDistinct\<close> on the rule series and on the tag series: whether the name may be
  counted, with the updated number of series.
\<close>

definition trackDistinct :: "(string \<rightharpoonup> nat) \<Rightarrow> string \<Rightarrow> nat \<Rightarrow> nat \<Rightarrow> bool \<times> nat" where
  "trackDistinct ids name distinct_count max_distinct =
     (if ids name \<noteq> None then (True, distinct_count)
      else if max_distinct \<le> distinct_count then (False, distinct_count)
      else (True, distinct_count + 1))"

definition count_rule_series :: "host \<Rightarrow> string \<Rightarrow> metric_state \<Rightarrow> bool \<times> metric_state" where
  "count_rule_series h name s = (case s of (m, tr) \<Rightarrow>
     (case trackDistinct (metric_ids m) name (distinct_rule_metrics m) kMaxDistinctRuleMetrics of
        (go, d) \<Rightarrow>
          (let s1 = (m\<lparr>distinct_rule_metrics := d\<rparr>, tr)
           in if go then (True, incrementCounter h name s1) else (False, s1))))"

definition count_tag_series :: "host \<Rightarrow> string \<Rightarrow> metric_state \<Rightarrow> bool \<times> metric_state" where
  "count_tag_series h name s = (case s of (m, tr) \<Rightarrow>
     (case trackDistinct (metric_ids m) name (distinct_tag_metrics m) kMaxDistinctTagMetrics of
        (go, d) \<Rightarrow>
          (let s1 = (m\<lparr>distinct_tag_metrics := d\<rparr>, tr)
           in if go then (True, incrementCounter h name s1) else (False, s1))))"

section \<open>The counted events\<close>

definition countTxTotal :: "host \<Rightarrow> metric_state \<Rightarrow> metric_state" where
  "countTxTotal h s =
     (let s1 = incrementCoreCounter h ''tx.total'' ''tx.total'' s;
          n = (tx_count (fst s1) + 1) mod 2 ^ 64;
          s2 = ((fst s1)\<lparr>tx_count := n\<rparr>, snd s1)
      in if n mod 100 = 0 then recordWasmMemory h s2 else s2)"

definition countTxAllowed :: "host \<Rightarrow> metric_state \<Rightarrow> metric_state" where
  "countTxAllowed h s = incrementCoreCounter h ''tx.allowed'' ''tx.allowed'' s"

definition rule_series :: "string \<Rightarrow> int \<Rightarrow> string \<Rightarrow> string \<Rightarrow> string" where
  "rule_series event rule_id phase sfx =
     event @ ''_ruleid='' @ int_to_string rule_id @ ''_phase='' @ phase @ sfx"

definition countTxInterruption :: "host \<Rightarrow> string \<Rightarrow> int \<Rightarrow> metric_state \<Rightarrow> metric_state" where
  "countTxInterruption h phase0 rule_id s =
     (if \<not> enabled (options (fst s)) then s
      else
        (let phase = (if phase0 = [] then ''unknown'' else phase0);
             sfx = label_suffix (fst s);
             s1 = count_both h (''tx.interruptions_phase='' @ phase @ sfx) s
         in if \<not> per_rule_id (options (fst s1)) \<or> rule_id \<le> 0 then s1
            else
              (let name = rule_series ''tx.interruptions'' rule_id phase sfx;
                   (go, s2) = count_rule_series h (legacy name) s1
               in if \<not> go then s2
                  else if dual_prefix (options (fst s2))
                  then snd (count_rule_series h (product name) s2) else s2)))"

text \<open>The loop over the tags of a matched rule.\<close>

fun count_tags :: "host \<Rightarrow> string \<Rightarrow> string list \<Rightarrow> metric_state \<Rightarrow> metric_state" where
  "count_tags h phase [] s = s"
| "count_tags h phase (tag # tags) s =
     (if \<not> isInterestingRuleTag tag then count_tags h phase tags s
      else
        (let name = ''rule.matches_tag='' @ sanitizeTagForMetric tag @ ''_phase='' @ phase @
               label_suffix (fst s);
             (go, s1) = count_tag_series h (legacy name) s;
             s2 = (if \<not> go then s1
               else if dual_prefix (options (fst s1)) then snd (count_tag_series h (product name) s1)
               else s1)
         in count_tags h phase tags s2))"

definition countRuleMatch :: "host \<Rightarrow> int \<Rightarrow> int \<Rightarrow> bool \<Rightarrow> int \<Rightarrow> string list \<Rightarrow> metric_state \<Rightarrow> metric_state" where
  "countRuleMatch h rule_phase severity disruptive rule_id tags s =
     (if \<not> enabled (options (fst s)) then s
      else
        (let phase = phaseNameFromRule rule_phase;
             sfx = label_suffix (fst s);
             by_severity = ''_phase='' @ phase @ ''_severity='' @ int_to_string severity @ sfx;
             s1 = count_both h (''rule.matches'' @ sfx) s;
             s2 = count_both h (''rule.matches'' @ by_severity) s1;
             s3 = (if disruptive then
                 count_both h (''rule.matches_disruptive'' @ by_severity)
                   (count_both h (''rule.matches_disruptive'' @ sfx) s2)
               else s2);
             s4 = (if per_rule_id (options (fst s3)) \<and> 0 < rule_id then
                 (let name = rule_series ''rule.matches'' rule_id phase sfx;
                      t = snd (count_rule_series h (legacy name) s3)
                  in if dual_prefix (options (fst t)) then snd (count_rule_series h (product name) t) else t)
               else s3)
         in if \<not> rule_tags (options (fst s4)) then s4 else count_tags h phase tags s4))"

definition countResponseBodySanitized :: "host \<Rightarrow> metric_state \<Rightarrow> metric_state" where
  "countResponseBodySanitized h s =
     incrementCoreCounter h ''response_body.sanitized'' ''response_body.sanitized'' s"

definition set_enabled :: "bool \<Rightarrow> ModSecMetrics \<Rightarrow> ModSecMetrics" where
  "set_enabled b m = m\<lparr>options := (options m)\<lparr>enabled := b\<rparr>\<rparr>"

definition countConfigureFallbackRules :: "host \<Rightarrow> metric_state \<Rightarrow> metric_state" where
  "countConfigureFallbackRules h s =
     (let was = enabled (options (fst s));
          s1 = incrementCoreCounter h ''configure.fallback_rules'' ''configure.fallback_rules''
            (set_enabled True (fst s), snd s)
      in (set_enabled was (fst s1), snd s1))"

end
