(* ===== verification/Root_Context.thy ===== *)
theory Root_Context
  imports Rules_Engine Metrics
begin

text \<open>
  The root context (class \<^verbatim>\<open>ModSecRootContext\<close> in
  \<^verbatim>\<open>src/src/modsecurity_proxy_wasm.cc\<close>): starting, reading the plugin configuration, and the
  configure step with its fallback. The identity of the build (\<^verbatim>\<open>src/src/version.h\<close>,
  \<^verbatim>\<open>src/src/version.cc\<close>) is set by macros of the build, a parameter here.
\<close>

section \<open>The identity of the build\<close>

record build_info =
  b_version :: string
  b_git_commit :: string
  b_git_describe :: string
  b_source :: string
  b_crs_version :: string
  b_modsecurity_version :: string
  b_build_date :: string
  b_build_host :: string

text \<open>The macros that no flag of the build sets.\<close>

definition default_build :: build_info where
  "default_build = \<lparr>b_version = ''dev'', b_git_commit = ''unknown'', b_git_describe = ''unknown'',
     b_source = ''github.com/kubewaf-io/kubewaf/modsecurity-proxy-wasm'', b_crs_version = ''unknown'',
     b_modsecurity_version = ''unknown'', b_build_date = ''unknown'', b_build_host = ''unknown''\<rparr>"

definition version_line :: "build_info \<Rightarrow> string" where
  "version_line b =
     ''{'' @ quoted ''component'' @ '':'' @ quoted ''modsecurity-proxy-wasm'' @ '','' @
     quoted ''event'' @ '':'' @ quoted ''version'' @ '','' @
     quoted ''version'' @ '':'' @ quoted (b_version b) @ '','' @
     quoted ''git'' @ '':'' @ quoted (b_git_commit b) @ '','' @
     quoted ''crs'' @ '':'' @ quoted (b_crs_version b) @ '','' @
     quoted ''modsecurity'' @ '':'' @ quoted (b_modsecurity_version b) @ ''}''"

definition meta_begin :: string where "meta_begin = ''<<<MODSECURITY_PROXY_WASM_META>>>''"
definition meta_end :: string where "meta_end = ''<<<END_MODSECURITY_PROXY_WASM_META>>>''"

definition modsecurity_proxy_wasm_metadata :: "build_info \<Rightarrow> string" where
  "modsecurity_proxy_wasm_metadata b = LF # text_of_lines
     [meta_begin,
      ''module=modsecurity-proxy-wasm'',
      ''name=modsecurity-proxy-wasm'',
      ''filter_name=kubewaf.modsecurity'',
      ''version='' @ b_version b,
      ''git_commit='' @ b_git_commit b,
      ''git_describe='' @ b_git_describe b,
      ''source='' @ b_source b,
      ''source_path=modsecurity-proxy-wasm'',
      ''crs_version='' @ b_crs_version b,
      ''modsecurity_version='' @ b_modsecurity_version b,
      ''runtime=envoy.wasm.runtime.v8'',
      ''build_date='' @ b_build_date b,
      ''build_host='' @ b_build_host b,
      ''features=kubewaf-defaults,crs-catalog,ecds,metrics,yajl-json,libxml2-xml'',
      meta_end]"

section \<open>Built-in configurations\<close>

definition defaultWafJsonConfig :: string where
  "defaultWafJsonConfig =
     ''{'' @ [LF] @
     ''  '' @ quoted ''directives_map'' @ '': {'' @ [LF] @
     ''    '' @ quoted ''default'' @ '': ['' @ [LF] @
     ''      '' @ quoted ''Include @kubewaf-defaults'' @ '','' @ [LF] @
     ''      '' @ quoted ''Include @demo-conf'' @ '','' @ [LF] @
     ''      '' @ quoted ''SecDebugLogLevel 9'' @ '','' @ [LF] @
     ''      '' @ quoted ''SecRuleEngine On'' @ [LF] @
     ''    ]'' @ [LF] @
     ''  },'' @ [LF] @
     ''  '' @ quoted ''default_directives'' @ '': '' @ quoted ''default'' @ [LF] @
     ''}''"

text \<open>The default configuration is a document in the sense of \<open>doc\<close>.\<close>

definition default_members :: members where
  "default_members =
     Member ''directives_map'' [] '' ''
       (DObj (LF # ''    '') (Member ''default'' [] '' ''
         (DArr (LF # ''      '')
           (Item (DStr ''Include @kubewaf-defaults'') [] (LF # ''      '')
           (Item (DStr ''Include @demo-conf'') [] (LF # ''      '')
           (Item (DStr ''SecDebugLogLevel 9'') [] (LF # ''      '')
           (Item (DStr ''SecRuleEngine On'') (LF # ''    '') [] EndItems)))))
         (LF # ''  '') [] EndMembers))
       [] (LF # ''  '')
     (Member ''default_directives'' [] '' '' (DStr ''default'') [LF] [] EndMembers)"

lemma default_config_doc:
  "wf_doc (DObj (LF # ''  '') default_members)"
  "doc_text (DObj (LF # ''  '') default_members) = defaultWafJsonConfig"
  by (simp_all add: default_members_def blank_def white_def defaultWafJsonConfig_def quoted_def)

definition kDefaultRules :: string where
  "kDefaultRules = LF # text_of_lines
     [''SecRuleEngine On'',
      ''SecRequestBodyAccess On'',
      ''SecResponseBodyAccess Off'',
      ''SecRule REQUEST_HEADERS:Content-Type '' @ quoted (''^(?:application(?:/soap'' @ [BSLASH] @ ''+|/)|text/)xml'') @
        '' '' @ [BSLASH],
      ''     '' @ quoted ''id:200000,phase:1,t:none,t:lowercase,pass,nolog,ctl:requestBodyProcessor=XML'',
      ''SecRule REQUEST_HEADERS:Content-Type '' @ quoted ''^application/json'' @ '' '' @ [BSLASH],
      ''     '' @ quoted ''id:200001,phase:1,t:none,t:lowercase,pass,nolog,ctl:requestBodyProcessor=JSON'',
      ''# Basic test rule (XSS-ish) - real CRS provides many more'',
      ''SecRule ARGS '' @ quoted ''@rx <script'' @ '' '' @
        quoted (''id:1000,phase:2,deny,status:403,msg:'' @ [CHR 0x27] @ ''Basic XSS block'' @ [CHR 0x27])]"

section \<open>The root context\<close>

text \<open>What surrounds it: the host, the build, zlib, the catalog, the rule engine, the hash map's order.\<close>

record ('z, 'r) surroundings =
  su_host :: host
  su_build :: build_info
  su_zlib :: "'z zlib"
  su_catalog :: catalog
  su_rules :: "'r rules_set"
  su_order :: "(string \<times> string) list \<Rightarrow> (string \<times> string) list"

text \<open>
  The members of the class (a null pointer is \<open>None\<close>; of \<^verbatim>\<open>modsec_\<close> only the connector text
  is seen), the runtime data files of \<^verbatim>\<open>wasm_vfs.cc\<close>, and the effects so far.
\<close>

record 'r root =
  modsec :: "string option"
  rules :: "'r option"
  r_metrics :: ModSecMetrics
  plugin_options :: WafPluginOptions
  runtime_data :: runtime_files
  r_tr :: trace

definition new_root :: "'r root" where
  "new_root = \<lparr>modsec = None, rules = None, r_metrics = new_metrics,
     plugin_options = default_plugin_options, runtime_data = [], r_tr = []\<rparr>"

definition on_trace :: "(trace \<Rightarrow> trace) \<Rightarrow> 'r root \<Rightarrow> 'r root" where
  "on_trace f s = s\<lparr>r_tr := f (r_tr s)\<rparr>"

definition on_metrics :: "(metric_state \<Rightarrow> metric_state) \<Rightarrow> 'r root \<Rightarrow> 'r root" where
  "on_metrics f s = (case f (r_metrics s, r_tr s) of (m, t) \<Rightarrow> s\<lparr>r_metrics := m, r_tr := t\<rparr>)"

definition onStart :: "('z, 'r) surroundings \<Rightarrow> 'r root \<Rightarrow> bool \<times> 'r root" where
  "onStart su s = (True, on_trace (\<lambda>t. t @ [LogWarn (version_line (su_build su))]) s)"

text \<open>\<open>buf\<close> is the buffer of the plugin configuration.\<close>

definition readPluginConfig :: "nat \<Rightarrow> string option \<Rightarrow> string option" where
  "readPluginConfig configuration_size buf =
     (if 0 < configuration_size then buf else Some defaultWafJsonConfig)"

definition connector_text :: "WafPluginOptions \<Rightarrow> string" where
  "connector_text opts =
     (if config_id opts \<noteq> [] then ''kubeWAF/modsecurity-proxy-wasm ('' @ config_id opts @ '')''
      else if mode opts = ''kubewaf'' then ''kubeWAF/modsecurity-proxy-wasm (mode=kubewaf)''
      else ''modsecurity-proxy-wasm/1.0 (Envoy proxy-wasm-cpp-sdk)'')"

section \<open>The configure step\<close>

definition heap_member :: "host \<Rightarrow> trace \<Rightarrow> string" where
  "heap_member h t = raw_member ''wasm_heap_bytes'' (wasmHeapBytes h t)"

definition configure_start :: "('z, 'r) surroundings \<Rightarrow> nat \<Rightarrow> trace \<Rightarrow> trace" where
  "configure_start su configuration_size t0 =
     (let h = su_host su;
          t1 = t0 @ [LogWarn (version_line (su_build su))];
          t2 = logJson False ''configure_start''
                 (raw_member ''size'' (nat_to_string configuration_size) @ '','' @ heap_member h t1) t1
      in logHeapSample h ''configure_start'' None 0 t2)"

text \<open>The options are known: metrics, engine and an empty rules set.\<close>

definition install_options :: "('z, 'r) surroundings \<Rightarrow> string \<Rightarrow> 'r root \<Rightarrow> 'r root" where
  "install_options su config s0 =
     (let h = su_host su;
          opts = parseWafPluginOptions config;
          s1 = on_trace (logHeapSample h ''config_read'' None (length config)) s0;
          s2 = on_metrics (metrics_configure h (metrics opts)) (s1\<lparr>plugin_options := opts\<rparr>)
      in on_trace (logHeapSample h ''modsec_init'' None 0)
           (s2\<lparr>modsec := Some (connector_text opts), rules := Some (rs_new (su_rules su))\<rparr>))"

definition install_data_files :: "('z, 'r) surroundings \<Rightarrow> runtime_files \<Rightarrow> 'r root \<Rightarrow> 'r root" where
  "install_data_files su files s0 =
     (let h = su_host su;
          s1 = s0\<lparr>runtime_data := set_runtime_data_files files (runtime_data s0)\<rparr>;
          s2 = (if files \<noteq> [] then on_trace (\<lambda>t. logJson False ''runtime_data_files_ready''
                  (raw_member ''runtime_data_files'' (nat_to_string (length files)) @ '','' @ heap_member h t) t) s1
                else s1);
          s3 = on_trace (\<lambda>t. logJson False ''crs_data_ready''
                  (raw_member ''source'' (quoted ''runtime_or_catalog'') @ '','' @ heap_member h t) t) s2
      in on_trace (logHeapSample h ''after_crs_data'' None 0) s3)"

definition load_fallback :: "('z, 'r) surroundings \<Rightarrow> string \<Rightarrow> 'r \<Rightarrow> 'r root \<Rightarrow> bool \<times> 'r root" where
  "load_fallback su err rules1 s0 =
     (let h = su_host su;
          s1 = on_trace (logJson False ''config_load_failed''
                 (str_member ''error'' err @ '','' @ raw_member ''allow_fallback'' ''true'' @ '','' @
                  raw_member ''action'' (quoted ''load_minimal_builtin''))) s0;
          (ret, rules2) = rs_load (su_rules su) kDefaultRules [] rules1;
          s2 = on_trace (\<lambda>t. t @ [LoadRules kDefaultRules []]) (s1\<lparr>rules := Some rules2\<rparr>)
      in if ret < 0 then
           (False, on_trace (logJson True ''fallback_rules_failed''
              (str_member ''error'' (rs_error (su_rules su) rules2))) s2)
         else
           (True, on_metrics (recordWasmMemory h)
              (on_trace (logHeapSample h ''fallback_rules_loaded'' None 0)
                (on_metrics (countConfigureFallbackRules h)
                  (on_trace (logJson False ''fallback_rules_loaded'' []) s2)))))"

definition applied_members :: "WafPluginOptions \<Rightarrow> string" where
  "applied_members opts =
     (if config_id opts \<noteq> [] then str_member ''config_id'' (config_id opts) @ '','' else []) @
     (if mode opts \<noteq> [] then str_member ''mode'' (mode opts) @ '','' else []) @
     raw_member ''metric_labels'' (nat_to_string (length (labels (metrics opts)))) @ '','' @
     raw_member ''per_rule_id'' (bool_text (per_rule_id (metrics opts))) @ '','' @
     raw_member ''dual_prefix'' (bool_text (dual_prefix (metrics opts))) @ '','' @
     raw_member ''fullwidth_normalize'' (bool_text (fullwidth_normalize opts)) @ '','' @
     raw_member ''stats'' (bool_text (enabled (metrics opts)))"

definition configuration_applied :: "('z, 'r) surroundings \<Rightarrow> 'r root \<Rightarrow> 'r root" where
  "configuration_applied su s0 =
     (let h = su_host su;
          s1 = on_trace (logHeapSample h ''config_freed'' None 0)
                 (on_trace (logHeapSample h ''rules_applied'' None 0) s0);
          s2 = on_metrics (recordWasmMemory h) s1;
          s3 = on_trace (\<lambda>t. logJson False ''config_applied''
                 (applied_members (plugin_options s2) @ '','' @ heap_member h t) t) s2
      in on_trace (logHeapSample h ''config_applied'' None 0) s3)"

text \<open>The rules: applied, or replaced by the fallback, or refused.\<close>

definition install_rules :: "('z, 'r) surroundings \<Rightarrow> string \<Rightarrow> 'r root \<Rightarrow> (bool \<times> 'r root) option" where
  "install_rules su config s =
     (case rules s of None \<Rightarrow> Some (False, s)
      | Some rules0 \<Rightarrow>
        (case applyWafConfiguration (su_zlib su) (su_catalog su) (Some (loadRuleChunk (su_host su) (su_rules su)))
               config (rules0, r_tr s) of
           None \<Rightarrow> None
         | Some (ok, (rules1, t), err) \<Rightarrow>
             (let s1 = s\<lparr>rules := Some rules1, r_tr := t\<rparr> in
              Some (if ok then (True, configuration_applied su s1)
                else if \<not> allow_fallback (plugin_options s1) \<or> \<not> wafConfigAllowsFallback config then
                  (False, on_trace (\<lambda>t. logJson True ''config_load_failed''
                     (str_member ''error'' err @ '','' @ raw_member ''fail_closed'' ''true'' @ '','' @
                      heap_member (su_host su) t) t) s1)
                else load_fallback su err rules1 s1))))"

text \<open>The whole step. The result is \<open>None\<close> only where the decompressor does not end.\<close>

definition onConfigure :: "('z, 'r) surroundings \<Rightarrow> nat \<Rightarrow> string option \<Rightarrow> 'r root \<Rightarrow> (bool \<times> 'r root) option" where
  "onConfigure su configuration_size buf s0 =
     (let s1 = on_trace (configure_start su configuration_size) s0 in
      case readPluginConfig configuration_size buf of
        None \<Rightarrow> Some (False, on_trace (logJson True ''configure_failed''
                  (raw_member ''error'' (quoted ''Failed to read plugin configuration''))) s1)
      | Some config \<Rightarrow>
          (let s2 = install_options su config s1 in
           case parseDataFiles (su_zlib su) (su_order su) config of
             None \<Rightarrow> None
           | Some (False, files, df_err) \<Rightarrow>
               Some (False, on_trace (logJson True ''configure_failed'' (str_member ''error'' df_err)) s2)
           | Some (True, files, df_err) \<Rightarrow> install_rules su config (install_data_files su files s2)))"

end
