(* ===== verification/Metric_Effects.thy ===== *)
theory Metric_Effects
  imports Metrics
begin

text \<open>What the metrics do to the outside: they only add metric calls to the effects.\<close>

section \<open>Metrics only append metric effects\<close>

definition metric_op :: "(metric_state \<Rightarrow> metric_state) \<Rightarrow> bool" where
  "metric_op f \<longleftrightarrow> (\<forall>m t. \<exists>m' es. f (m, t) = (m', t @ es) \<and> list_all metric_effect es)"

lemma metric_opI: "(\<And>s. \<exists>es. snd (f s) = snd s @ es \<and> list_all metric_effect es) \<Longrightarrow> metric_op f"
  unfolding metric_op_def by (metis prod.collapse snd_conv)

lemma metric_opD: "metric_op f \<Longrightarrow> \<exists>es. snd (f s) = snd s @ es \<and> list_all metric_effect es"
  unfolding metric_op_def by (metis prod.collapse snd_conv)

definition appends_metrics :: "metric_state \<Rightarrow> metric_state \<Rightarrow> bool" where
  "appends_metrics s s' \<longleftrightarrow> (\<exists>es. snd s' = snd s @ es \<and> list_all metric_effect es)"

lemma appends_refl [simp]: "appends_metrics s s" "snd s' = snd s \<Longrightarrow> appends_metrics s s'"
  by (auto simp: appends_metrics_def)

lemma appends_trans: "appends_metrics s t \<Longrightarrow> appends_metrics t u \<Longrightarrow> appends_metrics s u"
  unfolding appends_metrics_def by (metis append_assoc list_all_append)

lemma appends_cong: "appends_metrics s t \<Longrightarrow> snd s = snd s' \<Longrightarrow> snd t' = snd t \<Longrightarrow> appends_metrics s' t'"
  by (simp add: appends_metrics_def)

lemma appends_counter: "appends_metrics s (incrementCounter h n s)"
  by (auto simp: appends_metrics_def incrementCounter_def Let_def metric_effect_def
      split: prod.split option.split)

lemma appends_gauge: "appends_metrics s (setGauge h n v s)"
  by (auto simp: appends_metrics_def setGauge_def Let_def metric_effect_def
      split: prod.split option.split)

lemma appends_again:
  "appends_metrics s (incrementCounter h a (incrementCounter h b s))"
  "appends_metrics s (setGauge h a v (setGauge h b v s))"
  by (rule appends_trans [OF appends_counter appends_counter], rule appends_trans [OF appends_gauge appends_gauge])

lemma appends_from: "snd t = snd s \<Longrightarrow> appends_metrics s (incrementCounter h n t)"
  using appends_counter [of t] by (simp add: appends_metrics_def)

lemma appends_both: "appends_metrics s (count_both h n s)"
  by (simp add: count_both_def Let_def appends_counter appends_again)

lemma appends_core: "appends_metrics s (incrementCoreCounter h a b s)"
  by (simp add: incrementCoreCounter_def Let_def appends_counter appends_again)

lemma appends_memory: "appends_metrics s (recordWasmMemory h s)"
  by (simp add: recordWasmMemory_def Let_def appends_gauge appends_again)

lemma appends_rule_series: "appends_metrics s (snd (count_rule_series h n s))"
  by (auto simp: count_rule_series_def Let_def split: prod.split intro: appends_from)

lemma appends_tag_series: "appends_metrics s (snd (count_tag_series h n s))"
  by (auto simp: count_tag_series_def Let_def split: prod.split intro: appends_from)

lemma appends_tags: "appends_metrics s (count_tags h phase tags s)"
proof (induction tags arbitrary: s)
  case (Cons tag tags)
  let ?n = "''rule.matches_tag='' @ sanitizeTagForMetric tag @ ''_phase='' @ phase @ label_suffix (fst s)"
  obtain go s1 where s1: "count_tag_series h (legacy ?n) s = (go, s1)"
    by (cases "count_tag_series h (legacy ?n) s")
  have 1: "appends_metrics s s1" using appends_tag_series [of s h "legacy ?n"] s1 by simp
  have 2: "appends_metrics s (snd (count_tag_series h (product ?n) s1))"
    using appends_trans [OF 1 appends_tag_series] .
  show ?case
    unfolding count_tags.simps Let_def s1 prod.case
    using Cons.IH appends_trans [OF 1 Cons.IH] appends_trans [OF 2 Cons.IH] by simp
qed simp

lemma metric_ops:
  "metric_op (countTxTotal h)" "metric_op (countTxAllowed h)" "metric_op (countTxInterruption h p i)"
  "metric_op (countRuleMatch h ph sev d i tags)" "metric_op (countResponseBodySanitized h)"
proof -
  have op: "metric_op f" if "\<And>s. appends_metrics s (f s)" for f
    using that by (intro metric_opI) (simp add: appends_metrics_def)
  show "metric_op (countTxAllowed h)" "metric_op (countResponseBodySanitized h)"
    using appends_core by (auto intro!: op simp: countTxAllowed_def countResponseBodySanitized_def)
  show "metric_op (countTxTotal h)"
  proof (rule op)
    fix s
    let ?s1 = "incrementCoreCounter h ''tx.total'' ''tx.total'' s"
    have 1: "appends_metrics s ((fst ?s1)\<lparr>tx_count := n\<rparr>, snd ?s1)" for n
      using appends_core by (rule appends_cong) simp_all
    show "appends_metrics s (countTxTotal h s)"
      using 1 appends_trans [OF 1 appends_memory] by (simp add: countTxTotal_def Let_def)
  qed
  show "metric_op (countTxInterruption h p i)"
  proof (rule op)
    fix s
    define q where "q = (if p = [] then ''unknown'' else p)"
    define s1 where "s1 = count_both h (''tx.interruptions_phase='' @ q @ label_suffix (fst s)) s"
    define name where "name = rule_series ''tx.interruptions'' i q (label_suffix (fst s))"
    obtain go s2 where s2: "count_rule_series h (legacy name) s1 = (go, s2)"
      by (cases "count_rule_series h (legacy name) s1")
    have 1: "appends_metrics s s1" unfolding s1_def by (rule appends_both)
    have 2: "appends_metrics s s2"
      using appends_trans [OF 1 appends_rule_series] s2 by (metis snd_conv)
    have 3: "appends_metrics s (snd (count_rule_series h (product name) s2))"
      using appends_trans [OF 2 appends_rule_series] .
    have "countTxInterruption h p i s =
      (if \<not> enabled (options (fst s)) then s
       else if \<not> per_rule_id (options (fst s1)) \<or> i \<le> 0 then s1
       else if \<not> go then s2
       else if dual_prefix (options (fst s2)) then snd (count_rule_series h (product name) s2) else s2)"
      unfolding countTxInterruption_def Let_def q_def [symmetric] s1_def [symmetric] name_def [symmetric] s2
      by simp
    with 1 2 3 show "appends_metrics s (countTxInterruption h p i s)" by simp
  qed
  show "metric_op (countRuleMatch h ph sev d i tags)"
  proof (rule op)
    fix s
    have a: "appends_metrics s t \<Longrightarrow> appends_metrics s (count_both h n t)" for t n
      using appends_trans appends_both by blast
    have b: "appends_metrics s t \<Longrightarrow> appends_metrics s (snd (count_rule_series h n t))" for t n
      using appends_trans appends_rule_series by blast
    have c: "appends_metrics s t \<Longrightarrow> appends_metrics s (count_tags h q ts t)" for t q ts
      using appends_trans appends_tags by blast
    show "appends_metrics s (countRuleMatch h ph sev d i tags s)"
      unfolding countRuleMatch_def Let_def by (simp add: a b c del: append_Cons)
  qed
qed

text \<open>The operations of the configure step.\<close>

lemma configure_metric_ops:
  "metric_op (recordWasmMemory h)" "metric_op (metrics_configure h opts)"
  "metric_op (countConfigureFallbackRules h)"
proof -
  have op: "metric_op f" if "\<And>s. appends_metrics s (f s)" for f
    using that by (intro metric_opI) (simp add: appends_metrics_def)
  show "metric_op (recordWasmMemory h)" by (rule op) (rule appends_memory)
  show "metric_op (metrics_configure h opts)"
  proof (rule op)
    fix s
    have "appends_metrics s (recordWasmMemory h (m, snd s))" for m
      using appends_memory by (rule appends_cong) simp_all
    then show "appends_metrics s (metrics_configure h opts s)"
      by (simp add: metrics_configure_def Let_def)
  qed
  show "metric_op (countConfigureFallbackRules h)"
  proof (rule op)
    fix s
    have "appends_metrics s (m, snd (incrementCoreCounter h a b (set_enabled True (fst s), snd s)))" for m a b
      using appends_core by (rule appends_cong) simp_all
    then show "appends_metrics s (countConfigureFallbackRules h s)"
      by (simp add: countConfigureFallbackRules_def Let_def)
  qed
qed

end
