(* ===== verification/Root_Policies.thy ===== *)
theory Root_Policies
  imports Root_Context Metric_Effects Plugin_Options
begin

text \<open>
  What the configure step guarantees: the rules in force after a success, refusal under the
  operator, the report of a failure, termination, and the data files it installs.
\<close>

section \<open>Steps on the root context\<close>

lemma on_trace_fields [simp]:
  "modsec (on_trace f s) = modsec s" "rules (on_trace f s) = rules s"
  "r_metrics (on_trace f s) = r_metrics s" "plugin_options (on_trace f s) = plugin_options s"
  "runtime_data (on_trace f s) = runtime_data s" "r_tr (on_trace f s) = f (r_tr s)"
  by (simp_all add: on_trace_def)

lemma on_metrics_fields [simp]:
  "modsec (on_metrics f s) = modsec s" "rules (on_metrics f s) = rules s"
  "plugin_options (on_metrics f s) = plugin_options s" "runtime_data (on_metrics f s) = runtime_data s"
  "r_tr (on_metrics f s) = snd (f (r_metrics s, r_tr s))"
  by (simp_all add: on_metrics_def prod.case_eq_if)

lemmas configure_defs = install_options_def install_data_files_def load_fallback_def
  configuration_applied_def configure_start_def heap_member_def Let_def

section \<open>The rules text of the effects\<close>

lemma metric_loads_nothing: "metric_effect e \<Longrightarrow> loaded_rules e = []"
  by (cases e) (simp_all add: metric_effect_def)

lemma metric_rules_text:
  assumes "metric_op f"
  shows "rules_text (snd (f s)) = rules_text (snd s)"
proof -
  obtain es where es: "snd (f s) = snd s @ es" "list_all metric_effect es"
    using metric_opD [OF assms] by blast
  from es(2) have "rules_text es = []" by (induction es) (simp_all add: metric_loads_nothing)
  with es(1) show ?thesis by simp
qed

lemma steps_rules_text:
  "rules_text (r_tr (install_options su config s)) = rules_text (r_tr s)"
  "rules_text (r_tr (install_data_files su files s)) = rules_text (r_tr s)"
  "rules_text (r_tr (configuration_applied su s)) = rules_text (r_tr s)"
  "rules_text (configure_start su n t) = rules_text t"
  by (simp_all add: configure_defs metric_rules_text configure_metric_ops)

section \<open>Every failure is reported\<close>

fun is_error :: "effect \<Rightarrow> bool" where
  "is_error (LogError l) = True"
| "is_error _ = False"

definition reports :: "bool \<Rightarrow> 'r root \<Rightarrow> bool" where
  "reports ok s \<longleftrightarrow> r_tr s \<noteq> [] \<and> is_error (last (r_tr s)) = (\<not> ok)"

lemma reports_json [simp]: "reports ok (on_trace (logJson e ev m) s) \<longleftrightarrow> ok = (\<not> e)"
  "reports ok (on_trace (\<lambda>t. logJson e ev (f t) t) s) \<longleftrightarrow> ok = (\<not> e)"
  by (auto simp: reports_def logJson_def Let_def)

lemma reports_heap [simp]: "reports ok (on_trace (logHeapSample h st l b) s) \<longleftrightarrow> ok"
  by (auto simp: reports_def logHeapSample_def logJson_def Let_def)

lemma reports_metrics:
  assumes "metric_op f" "reports True s"
  shows "reports True (on_metrics f s)"
proof -
  obtain es where es: "snd (f (r_metrics s, r_tr s)) = r_tr s @ es" "list_all metric_effect es"
    using metric_opD [OF assms(1)] by fastforce
  have "\<not> is_error e" if "metric_effect e" for e
    using that by (cases e) (simp_all add: metric_effect_def)
  then have "\<not> is_error (last es)" if "es \<noteq> []"
    using es(2) last_in_set [OF that] by (auto simp: list_all_iff)
  with es assms(2) show ?thesis by (cases "es = []") (simp_all add: reports_def)
qed

lemma reports_applied: "reports True (configuration_applied su s)"
  by (simp add: configuration_applied_def Let_def)

lemma reports_fallback: "load_fallback su err r s = (ok, s') \<Longrightarrow> reports ok s'"
  by (auto simp: load_fallback_def Let_def configure_metric_ops intro!: reports_metrics
      split: prod.splits if_splits)

lemma reports_rules: "rules s \<noteq> None \<Longrightarrow> install_rules su config s = Some (ok, s') \<Longrightarrow> reports ok s'"
  by (auto simp: install_rules_def Let_def reports_applied dest!: reports_fallback
      split: option.splits prod.splits if_splits)

section \<open>What a successful step has done\<close>

text \<open>The configuration is applied to a new rules set.\<close>

definition applies :: "('z, 'r) surroundings \<Rightarrow> string \<Rightarrow> trace \<Rightarrow> bool \<Rightarrow> 'r \<Rightarrow> trace \<Rightarrow> bool" where
  "applies su config t0 ok r t1 \<longleftrightarrow> (\<exists>err.
     applyWafConfiguration (su_zlib su) (su_catalog su) (Some (loadRuleChunk (su_host su) (su_rules su)))
       config (rs_new (su_rules su), t0) = Some (ok, (r, t1), err))"

text \<open>
  The fallback is in force: the engine accepted the built-in rules on top of \<open>r\<close>, and the rules
  set that resulted is the one of the root context.
\<close>

definition fallback_in_force :: "('z, 'r) surroundings \<Rightarrow> 'r \<Rightarrow> 'r root \<Rightarrow> bool" where
  "fallback_in_force su r s' \<longleftrightarrow> (case rs_load (su_rules su) kDefaultRules [] r of (ret, r') \<Rightarrow>
     0 \<le> ret \<and> rules s' = Some r')"

lemma install_rules_success:
  assumes "rules s = Some (rs_new (su_rules su))" "install_rules su config s = Some (True, s')"
  shows "\<exists>r t. rules s' \<noteq> None \<and> plugin_options s' = plugin_options s \<and> modsec s' = modsec s \<and>
    runtime_data s' = runtime_data s \<and>
    (applies su config (r_tr s) True r t \<and> rules s' = Some r \<and> rules_text (r_tr s') = rules_text t \<or>
     applies su config (r_tr s) False r t \<and> wafConfigAllowsFallback config \<and>
     allow_fallback (plugin_options s) \<and> fallback_in_force su r s' \<and>
     rules_text (r_tr s') = rules_text t @ kDefaultRules)"
proof -
  from assms obtain ok r t err where a: "applyWafConfiguration (su_zlib su) (su_catalog su)
      (Some (loadRuleChunk (su_host su) (su_rules su))) config (rs_new (su_rules su), r_tr s) = Some (ok, (r, t), err)"
    by (auto simp: install_rules_def split: option.splits prod.splits)
  then have ap: "applies su config (r_tr s) ok r t" by (auto simp: applies_def)
  show ?thesis
  proof (cases ok)
    case True
    with a ap assms have "s' = configuration_applied su (s\<lparr>rules := Some r, r_tr := t\<rparr>)"
      by (simp add: install_rules_def Let_def)
    with ap True show ?thesis
      by (intro exI [of _ r] exI [of _ t]) (simp add: steps_rules_text, simp add: configure_defs)
  next
    case False
    with a assms have fb: "load_fallback su err r (s\<lparr>rules := Some r, r_tr := t\<rparr>) = (True, s')"
      "allow_fallback (plugin_options s)" "wafConfigAllowsFallback config"
      by (auto simp: install_rules_def Let_def split: if_splits)
    from fb(1) have "rules s' \<noteq> None \<and> plugin_options s' = plugin_options s \<and> modsec s' = modsec s \<and>
        runtime_data s' = runtime_data s \<and> fallback_in_force su r s' \<and>
        rules_text (r_tr s') = rules_text t @ kDefaultRules"
      by (auto simp: load_fallback_def fallback_in_force_def Let_def metric_rules_text configure_metric_ops
          split: prod.splits if_splits)
    with ap False fb show ?thesis by (intro exI [of _ r] exI [of _ t]) simp
  qed
qed

lemma onConfigure_success:
  assumes "onConfigure su n buf s = Some (True, s')"
  shows "\<exists>config files e s2. readPluginConfig n buf = Some config \<and>
    parseDataFiles (su_zlib su) (su_order su) config = Some (True, files, e) \<and>
    s2 = install_data_files su files (install_options su config (on_trace (configure_start su n) s)) \<and>
    install_rules su config s2 = Some (True, s')"
  using assms by (auto simp: onConfigure_def Let_def split: option.splits prod.splits bool.splits)

lemma installed_fields [simp]:
  "rules (install_data_files su files s) = rules s"
  "plugin_options (install_data_files su files s) = plugin_options s"
  "modsec (install_data_files su files s) = modsec s"
  "runtime_data (install_data_files su files s) = files"
  "rules (install_options su config s) = Some (rs_new (su_rules su))"
  "plugin_options (install_options su config s) = parseWafPluginOptions config"
  "modsec (install_options su config s) = Some (connector_text (parseWafPluginOptions config))"
  by (simp_all add: install_data_files_def install_options_def set_runtime_data_files_def Let_def)

lemma applyWafConfiguration_returns:
  assumes "zlib_progress zl avail"
  shows "\<exists>r. applyWafConfiguration zl cat loader config u = Some r"
proof -
  obtain r where "loadDirectiveList zl (trim config) (default_profile (trim config)) = Some r"
    using loadDirectiveList_returns [OF assms] by blast
  then show ?thesis
    by (simp add: applyWafConfiguration_def applyJsonConfig_def Let_def del: split_paired_Ex)
qed

lemma decode_files_returns:
  assumes "zlib_progress zl avail"
  shows "\<exists>r. decode_files zl enc kvs used out = Some r"
proof (induction kvs arbitrary: used out)
  case (Cons kv kvs)
  obtain k v where kv: "kv = (k, v)" by (cases kv)
  have "\<exists>r. decode_data_file zl enc v = Some r"
    using gzipInflate_returns [OF assms] by (auto simp: decode_data_file_def split: sum.split)
  with Cons.IH show ?case
    by (auto simp: kv simp del: split_paired_Ex split: sum.split)
qed auto

lemma parseDataFiles_returns:
  assumes "zlib_progress zl avail"
  shows "\<exists>r. parseDataFiles zl iter config = Some r"
  using decode_files_returns [OF assms] by (auto simp: parseDataFiles_def Let_def simp del: split_paired_Ex split: sum.split)

lemma onConfigure_returns:
  assumes "zlib_progress (su_zlib su) avail"
  shows "\<exists>r. onConfigure su n buf s = Some r"
proof (cases "readPluginConfig n buf")
  case (Some config)
  obtain ok files e where p: "parseDataFiles (su_zlib su) (su_order su) config = Some (ok, files, e)"
    using parseDataFiles_returns [OF assms] by (metis prod.collapse)
  have "\<exists>r. install_rules su config t = Some r" for t
  proof (cases "rules t")
    case (Some r)
    obtain ok u err where "applyWafConfiguration (su_zlib su) (su_catalog su)
        (Some (loadRuleChunk (su_host su) (su_rules su))) config (r, r_tr t) = Some (ok, u, err)"
      using applyWafConfiguration_returns [OF assms] by (metis prod.collapse)
    with Some show ?thesis by (simp add: install_rules_def Let_def prod.case_eq_if del: split_paired_Ex)
  qed (simp add: install_rules_def del: split_paired_Ex)
  then show ?thesis by (cases ok) (simp_all add: onConfigure_def Let_def Some p del: split_paired_Ex)
qed (simp add: onConfigure_def Let_def del: split_paired_Ex)

lemma reports_configure: "onConfigure su n buf s = Some (ok, s') \<Longrightarrow> reports ok s'"
  by (auto simp: onConfigure_def Let_def dest: reports_rules [rotated] split: option.splits prod.splits bool.splits)

lemma configure_accepted:
  assumes "onConfigure su n buf s = Some (True, s')"
  shows "\<exists>config t0 r t1. readPluginConfig n buf = Some config \<and>
    plugin_options s' = parseWafPluginOptions config \<and> modsec s' \<noteq> None \<and> rules s' \<noteq> None \<and>
    rules_text t0 = rules_text (r_tr s) \<and>
    (applies su config t0 True r t1 \<and> rules s' = Some r \<and> rules_text (r_tr s') = rules_text t1 \<or>
     applies su config t0 False r t1 \<and> wafConfigAllowsFallback config \<and> fallback_in_force su r s' \<and>
     rules_text (r_tr s') = rules_text t1 @ kDefaultRules)"
proof -
  obtain config files e s2 where c: "readPluginConfig n buf = Some config"
    "s2 = install_data_files su files (install_options su config (on_trace (configure_start su n) s))"
    "install_rules su config s2 = Some (True, s')"
    using onConfigure_success [OF assms] by blast
  have "rules s2 = Some (rs_new (su_rules su))" "plugin_options s2 = parseWafPluginOptions config"
    "modsec s2 \<noteq> None" "rules_text (r_tr s2) = rules_text (r_tr s)"
    using c(2) by (simp_all add: steps_rules_text)
  with install_rules_success [OF _ c(3)] c(1) show ?thesis by metis
qed

section \<open>Surroundings for the witnesses\<close>

definition demo_surroundings :: "(string, string) surroundings" where
  "demo_surroundings = \<lparr>su_host = demo_host, su_build = default_build, su_zlib = stored_zlib,
     su_catalog = demo_catalog, su_rules = demo_rules, su_order = rev\<rparr>"

text \<open>A plain configuration, and one of the operator.\<close>

lemma demo_plain:
  "\<exists>s'. onConfigure demo_surroundings 16 (Some ''SecRuleEngine On'') new_root = Some (True, s')"
  by (simp add: onConfigure_def readPluginConfig_def parseDataFiles_def looksLikeJson_def trim_def is_space_def
      install_rules_def applyWafConfiguration_def load_plain_def loadChunk_def load_start_def
      loadRuleChunk_def demo_surroundings_def demo_rules_def Let_def prod.case_eq_if)

section \<open>Properties\<close>

text \<open>
  C12: a configure step succeeds only with rules in force: either the
  configuration was applied as a whole to a new rules set, or applying it failed, the
  configuration permits the fallback, the engine accepted the built-in rules, and the rules set
  in force is the one with them. The options in force are those of the configuration, and the
  engine exists.
\<close>

theorem configure_accepts:
  assumes "onConfigure su n buf s = Some (True, s')"
  shows "\<exists>config t0 r t1. readPluginConfig n buf = Some config \<and>
    plugin_options s' = parseWafPluginOptions config \<and> modsec s' \<noteq> None \<and> rules s' \<noteq> None \<and>
    rules_text t0 = rules_text (r_tr s) \<and>
    (applies su config t0 True r t1 \<and> rules s' = Some r \<and> rules_text (r_tr s') = rules_text t1 \<or>
     applies su config t0 False r t1 \<and> wafConfigAllowsFallback config \<and> fallback_in_force su r s' \<and>
     rules_text (r_tr s') = rules_text t1 @ kDefaultRules)"
  using assms by (rule configure_accepted)

lemma configure_accepts_witness:
  "\<exists>s' r t0 t1. onConfigure demo_surroundings 16 (Some ''SecRuleEngine On'') new_root = Some (True, s') \<and>
     (applies demo_surroundings ''SecRuleEngine On'' t0 True r t1 \<or>
      applies demo_surroundings ''SecRuleEngine On'' t0 False r t1)"
proof -
  obtain s' where s': "onConfigure demo_surroundings 16 (Some ''SecRuleEngine On'') new_root = Some (True, s')"
    using demo_plain by blast
  from configure_accepts [OF this] have "\<exists>r t0 t1. applies demo_surroundings ''SecRuleEngine On'' t0 True r t1 \<or>
      applies demo_surroundings ''SecRuleEngine On'' t0 False r t1"
    by (auto simp: readPluginConfig_def)
  with s' show ?thesis by blast
qed

text \<open>
  C24: the result of a configure step can be read off the log: it failed
  exactly when the last thing it did was to log an error.
\<close>

theorem configure_reports:
  assumes "onConfigure su n buf s = Some (ok, s')"
  shows "r_tr s' \<noteq> [] \<and> (is_error (last (r_tr s')) \<longleftrightarrow> \<not> ok)"
  using reports_configure [OF assms] by (simp add: reports_def)

lemma configure_reports_witness:
  "\<exists>s'. onConfigure demo_surroundings 16 (Some ''SecRuleEngine On'') new_root = Some (True, s') \<and>
     \<not> is_error (last (r_tr s'))"
proof -
  obtain s' where s': "onConfigure demo_surroundings 16 (Some ''SecRuleEngine On'') new_root = Some (True, s')"
    using demo_plain by blast
  with configure_reports [OF this] show ?thesis by blast
qed

text \<open>
  C23: with a decompressor that makes progress as zlib documents, the
  configure step returns, whatever the configuration, the engine and the host do.
\<close>

theorem configure_returns:
  assumes "zlib_progress (su_zlib su) avail"
  shows "\<exists>r. onConfigure su n buf s = Some r"
  using assms by (rule onConfigure_returns)

lemma configure_returns_witness: "\<exists>r. onConfigure demo_surroundings 2 (Some ''{}'') new_root = Some r"
  by (rule configure_returns [where avail = length]) (simp add: demo_surroundings_def stored_progress)

end
