(* ===== verification/Metric_Budget.thy ===== *)
theory Metric_Budget
  imports Metrics
begin

text \<open>
  The series budget of the metrics: however many events are counted, the number of per-rule
  and per-tag series stays bounded. The filtering of labels is part of the argument.
\<close>

section \<open>Budgets\<close>

locale series_budget =
  fixes is_series :: "string \<Rightarrow> bool"
    and used :: "ModSecMetrics \<Rightarrow> nat"
    and limit :: nat
  assumes used_ids [simp]: "used (m\<lparr>metric_ids := f\<rparr>) = used m"
begin

definition in_budget :: "ModSecMetrics \<Rightarrow> bool" where
  "in_budget m \<longleftrightarrow> finite (dom (metric_ids m)) \<and>
     card {n \<in> dom (metric_ids m). is_series n} \<le> used m \<and> used m \<le> limit"

lemma in_budget_same: "in_budget m \<Longrightarrow> metric_ids m' = metric_ids m \<Longrightarrow> used m' = used m \<Longrightarrow> in_budget m'"
  by (simp add: in_budget_def)

lemma within_other: "in_budget m \<Longrightarrow> \<not> is_series n \<Longrightarrow> in_budget (m\<lparr>metric_ids := (metric_ids m)(n \<mapsto> i)\<rparr>)"
proof -
  assume n: "\<not> is_series n" and w: "in_budget m"
  from n have "{x \<in> dom ((metric_ids m)(n \<mapsto> i)). is_series x} = {x \<in> dom (metric_ids m). is_series x}" by auto
  with w show ?thesis by (simp add: in_budget_def)
qed

lemma within_tracked:
  assumes w: "in_budget m" and t: "trackDistinct (metric_ids m) n (used m) limit = (go, d)"
    and m': "metric_ids m' = metric_ids m" "used m' = d"
  shows "in_budget m'" and "go \<Longrightarrow> in_budget (m'\<lparr>metric_ids := (metric_ids m)(n \<mapsto> i)\<rparr>)"
proof -
  let ?S = "{x \<in> dom (metric_ids m). is_series x}"
  have f: "finite ?S" "card ?S \<le> used m" "used m \<le> limit" "finite (dom (metric_ids m))"
    using w by (auto simp: in_budget_def)
  have d: "used m \<le> d" "d \<le> limit" "go \<Longrightarrow> metric_ids m n = None \<Longrightarrow> d = used m + 1"
    using t f by (auto simp: trackDistinct_def split: if_splits)
  then show "in_budget m'" using f m' by (simp add: in_budget_def)
  assume go
  have "card {x \<in> dom ((metric_ids m)(n \<mapsto> i)). is_series x} \<le> d"
  proof (cases "metric_ids m n")
    case None
    have "{x \<in> dom ((metric_ids m)(n \<mapsto> i)). is_series x} \<subseteq> insert n ?S" by auto
    then have "card {x \<in> dom ((metric_ids m)(n \<mapsto> i)). is_series x} \<le> card (insert n ?S)"
      using f(1) by (intro card_mono) auto
    also have "\<dots> \<le> card ?S + 1" using f(1) by (simp add: card_insert_if)
    finally show ?thesis using d(3) [OF \<open>go\<close> None] f(2) by simp
  next
    case (Some j)
    then have "{x \<in> dom ((metric_ids m)(n \<mapsto> i)). is_series x} = ?S" by auto
    with d f show ?thesis by simp
  qed
  with f d m' show "in_budget (m'\<lparr>metric_ids := (metric_ids m)(n \<mapsto> i)\<rparr>)" by (simp add: in_budget_def)
qed

end

definition rule_series_name :: "string \<Rightarrow> bool" where
  "rule_series_name n = list_ex (starts_with n)
     [legacy ''tx.interruptions_ruleid='', product ''tx.interruptions_ruleid='',
      legacy ''rule.matches_ruleid='', product ''rule.matches_ruleid='']"

definition tag_series_name :: "string \<Rightarrow> bool" where
  "tag_series_name n = list_ex (starts_with n)
     [legacy ''rule.matches_tag='', product ''rule.matches_tag='']"

interpretation rule_budget: series_budget rule_series_name distinct_rule_metrics kMaxDistinctRuleMetrics
  by unfold_locales simp

interpretation tag_budget: series_budget tag_series_name distinct_tag_metrics kMaxDistinctTagMetrics
  by unfold_locales simp

section \<open>Labels cannot imitate a series\<close>

definition suffix_safe :: "string \<Rightarrow> bool" where
  "suffix_safe s \<longleftrightarrow> \<not> starts_with s ''_ruleid='' \<and> \<not> starts_with s ''_tag=''"

lemma starts_key:
  assumes "CHR ''='' \<notin> set a" "CHR ''='' \<notin> set k"
  shows "starts_with (a @ CHR ''='' # t) (k @ ''='') \<longleftrightarrow> a = k"
  using assms
proof (induction a arbitrary: k)
  case Nil
  then show ?case by (cases k) auto
next
  case (Cons c a)
  then show ?case by (cases k) auto
qed

lemma contains_char: "contains s [c] \<longleftrightarrow> c \<in> set s"
  by (auto simp: contains_iff in_set_conv_decomp)

lemma contains_prefix: "contains (p @ s) p"
  by (auto simp: contains_iff intro: exI [of _ "[]"])

lemma label_safe:
  assumes "isReservedIdentityKey k \<or> \<not> extraLabelUnsafe k v"
  shows "suffix_safe (''_'' @ k @ ''='' @ v @ t)"
proof -
  have "CHR ''='' \<notin> set k \<and> k \<noteq> ''ruleid'' \<and> k \<noteq> ''tag''"
  proof (cases "isReservedIdentityKey k")
    case True
    then show ?thesis by (auto simp: isReservedIdentityKey_def)
  next
    case False
    with assms have u: "\<not> extraLabelUnsafe k v" by simp
    have "extraLabelUnsafe ''ruleid'' v" "extraLabelUnsafe ''tag'' v"
      using contains_prefix [of "''_ruleid=''" v] contains_prefix [of "''_tag=''" v]
      by (simp_all add: extraLabelUnsafe_def reserved_fragments_def)
    moreover have "CHR ''='' \<notin> set k" using u by (auto simp: extraLabelUnsafe_def contains_char)
    ultimately show ?thesis using u by auto
  qed
  then show ?thesis
    using starts_key [of k "''ruleid''" "v @ t"] starts_key [of k "''tag''" "v @ t"]
    by (simp add: suffix_safe_def)
qed

lemma label_loop_safe: "suffix_safe (label_loop kvs)"
proof (induction kvs)
  case Nil
  then show ?case by (simp add: suffix_safe_def)
next
  case (Cons kv kvs)
  obtain k v where "kv = (k, v)" by (cases kv)
  with Cons label_safe [of k v "label_loop kvs"] show ?case by simp
qed

section \<open>Every event keeps the budget\<close>

definition metrics_ok :: "ModSecMetrics \<Rightarrow> bool" where
  "metrics_ok m \<longleftrightarrow> rule_budget.in_budget m \<and> tag_budget.in_budget m \<and> suffix_safe (label_suffix m)"

definition core_name :: "string \<Rightarrow> bool" where
  "core_name n \<longleftrightarrow> \<not> rule_series_name n \<and> \<not> tag_series_name n"

lemma incrementCounter_keeps [simp]:
  "options (fst (incrementCounter h n s)) = options (fst s)"
  "label_suffix (fst (incrementCounter h n s)) = label_suffix (fst s)"
  "distinct_rule_metrics (fst (incrementCounter h n s)) = distinct_rule_metrics (fst s)"
  "distinct_tag_metrics (fst (incrementCounter h n s)) = distinct_tag_metrics (fst s)"
  by (auto simp: incrementCounter_def Let_def split: prod.splits option.splits)

lemma setGauge_keeps [simp]:
  "options (fst (setGauge h n v s)) = options (fst s)"
  "label_suffix (fst (setGauge h n v s)) = label_suffix (fst s)"
  by (auto simp: setGauge_def Let_def split: prod.splits option.splits)

lemma count_both_keeps [simp]:
  "options (fst (count_both h n s)) = options (fst s)"
  "label_suffix (fst (count_both h n s)) = label_suffix (fst s)"
  by (simp_all add: count_both_def Let_def)

lemma series_keeps [simp]:
  "options (fst (snd (count_rule_series h n s))) = options (fst s)"
  "label_suffix (fst (snd (count_rule_series h n s))) = label_suffix (fst s)"
  "options (fst (snd (count_tag_series h n s))) = options (fst s)"
  "label_suffix (fst (snd (count_tag_series h n s))) = label_suffix (fst s)"
  by (auto simp: count_rule_series_def count_tag_series_def Let_def split: prod.splits)

lemma new_id_ok:
  "metrics_ok m \<Longrightarrow> core_name n \<Longrightarrow> metrics_ok (m\<lparr>metric_ids := (metric_ids m)(n \<mapsto> i)\<rparr>)"
  by (simp add: metrics_ok_def core_name_def rule_budget.within_other tag_budget.within_other)

lemma incrementCounter_ok: "metrics_ok (fst s) \<Longrightarrow> core_name n \<Longrightarrow> metrics_ok (fst (incrementCounter h n s))"
  by (auto simp: incrementCounter_def Let_def new_id_ok split: prod.splits option.splits)

lemma setGauge_ok: "metrics_ok (fst s) \<Longrightarrow> core_name n \<Longrightarrow> metrics_ok (fst (setGauge h n v s))"
  by (auto simp: setGauge_def Let_def new_id_ok split: prod.splits option.splits)

lemma count_rule_series_ok:
  assumes "metrics_ok (fst s)" "\<not> tag_series_name n"
  shows "metrics_ok (fst (snd (count_rule_series h n s)))"
proof -
  obtain m tr where s: "s = (m, tr)" by (cases s)
  obtain go d where t: "trackDistinct (metric_ids m) n (distinct_rule_metrics m) kMaxDistinctRuleMetrics = (go, d)"
    by (cases "trackDistinct (metric_ids m) n (distinct_rule_metrics m) kMaxDistinctRuleMetrics")
  let ?m = "m\<lparr>distinct_rule_metrics := d\<rparr>"
  have r: "rule_budget.in_budget ?m" "go \<Longrightarrow> rule_budget.in_budget (?m\<lparr>metric_ids := (metric_ids m)(n \<mapsto> i)\<rparr>)" for i
    using rule_budget.within_tracked [OF _ t, of ?m] assms(1) s by (simp_all add: metrics_ok_def)
  have g: "tag_budget.in_budget ?m"
    using assms(1) s tag_budget.in_budget_same [of m ?m] by (simp add: metrics_ok_def)
  with r assms(2) have "metrics_ok ?m" "go \<Longrightarrow> metrics_ok (?m\<lparr>metric_ids := (metric_ids m)(n \<mapsto> i)\<rparr>)" for i
    using tag_budget.within_other [OF g, of n i] assms(1) s by (simp_all add: metrics_ok_def)
  then show ?thesis
    by (auto simp: count_rule_series_def s t Let_def incrementCounter_def split: option.splits)
qed

lemma count_tag_series_ok:
  assumes "metrics_ok (fst s)" "\<not> rule_series_name n"
  shows "metrics_ok (fst (snd (count_tag_series h n s)))"
proof -
  obtain m tr where s: "s = (m, tr)" by (cases s)
  obtain go d where t: "trackDistinct (metric_ids m) n (distinct_tag_metrics m) kMaxDistinctTagMetrics = (go, d)"
    by (cases "trackDistinct (metric_ids m) n (distinct_tag_metrics m) kMaxDistinctTagMetrics")
  let ?m = "m\<lparr>distinct_tag_metrics := d\<rparr>"
  have r: "tag_budget.in_budget ?m" "go \<Longrightarrow> tag_budget.in_budget (?m\<lparr>metric_ids := (metric_ids m)(n \<mapsto> i)\<rparr>)" for i
    using tag_budget.within_tracked [OF _ t, of ?m] assms(1) s by (simp_all add: metrics_ok_def)
  have g: "rule_budget.in_budget ?m"
    using assms(1) s rule_budget.in_budget_same [of m ?m] by (simp add: metrics_ok_def)
  with r assms(2) have "metrics_ok ?m" "go \<Longrightarrow> metrics_ok (?m\<lparr>metric_ids := (metric_ids m)(n \<mapsto> i)\<rparr>)" for i
    using rule_budget.within_other [OF g, of n i] assms(1) s by (simp_all add: metrics_ok_def)
  then show ?thesis
    by (auto simp: count_tag_series_def s t Let_def incrementCounter_def split: option.splits)
qed

text \<open>The names of the code fall into the right class.\<close>

lemma name_classes:
  "core_name (legacy (''tx.interruptions_phase='' @ x))" "core_name (product (''tx.interruptions_phase='' @ x))"
  "core_name (legacy (''rule.matches_phase='' @ x))" "core_name (product (''rule.matches_phase='' @ x))"
  "core_name (legacy (''rule.matches_disruptive'' @ x))" "core_name (product (''rule.matches_disruptive'' @ x))"
  "core_name (legacy (''tx.total'' @ x))" "core_name (product (''tx.total'' @ x))"
  "core_name (legacy (''tx.allowed'' @ x))" "core_name (product (''tx.allowed'' @ x))"
  "core_name (legacy (''response_body.sanitized'' @ x))" "core_name (product (''response_body.sanitized'' @ x))"
  "core_name (legacy (''configure.fallback_rules'' @ x))" "core_name (product (''configure.fallback_rules'' @ x))"
  "core_name (legacy (''memory.wasm_heap_bytes'' @ x))" "core_name (product (''memory.wasm_heap_bytes'' @ x))"
  "\<not> tag_series_name (legacy (rule_series ''tx.interruptions'' i p x))"
  "\<not> tag_series_name (product (rule_series ''tx.interruptions'' i p x))"
  "\<not> tag_series_name (legacy (rule_series ''rule.matches'' i p x))"
  "\<not> tag_series_name (product (rule_series ''rule.matches'' i p x))"
  "\<not> rule_series_name (legacy (''rule.matches_tag='' @ x))" "\<not> rule_series_name (product (''rule.matches_tag='' @ x))"
  by (simp_all add: core_name_def rule_series_name_def tag_series_name_def legacy_def product_def rule_series_def)

lemma core_name_matches:
  assumes "suffix_safe s"
  shows "core_name (legacy (''rule.matches'' @ s))" "core_name (product (''rule.matches'' @ s))"
  using assms
  by (simp_all add: suffix_safe_def core_name_def rule_series_name_def tag_series_name_def legacy_def product_def)

lemma suffix_ok: "metrics_ok m \<Longrightarrow> suffix_safe (label_suffix m)"
  by (simp add: metrics_ok_def)

lemma count_both_ok:
  "metrics_ok (fst s) \<Longrightarrow> core_name (legacy n) \<Longrightarrow> core_name (product n) \<Longrightarrow> metrics_ok (fst (count_both h n s))"
  by (simp add: count_both_def Let_def incrementCounter_ok)

lemma incrementCoreCounter_ok:
  "metrics_ok (fst s) \<Longrightarrow> (\<And>x. core_name (legacy (a @ x))) \<Longrightarrow> (\<And>x. core_name (product (b @ x))) \<Longrightarrow>
   metrics_ok (fst (incrementCoreCounter h a b s))"
  by (simp add: incrementCoreCounter_def Let_def incrementCounter_ok)

lemma recordWasmMemory_ok: "metrics_ok (fst s) \<Longrightarrow> metrics_ok (fst (recordWasmMemory h s))"
  by (simp add: recordWasmMemory_def Let_def setGauge_ok name_classes del: append_Cons)

lemma metrics_configure_ok: "metrics_ok (fst (metrics_configure h opts s))"
proof -
  have "metrics_ok \<lparr>options = opts, label_suffix = label_loop (labels opts), metric_ids = Map.empty,
      tx_count = 0, distinct_rule_metrics = 0, distinct_tag_metrics = 0\<rparr>"
    by (simp add: metrics_ok_def rule_budget.in_budget_def tag_budget.in_budget_def label_loop_safe)
  then show ?thesis by (simp add: metrics_configure_def Let_def recordWasmMemory_ok)
qed

lemma metrics_ok_cong [simp]:
  "metrics_ok (m\<lparr>tx_count := n\<rparr>) = metrics_ok m" "metrics_ok (set_enabled b m) = metrics_ok m"
  by (simp_all add: metrics_ok_def set_enabled_def rule_budget.in_budget_def tag_budget.in_budget_def)

lemma countTxTotal_ok: "metrics_ok (fst s) \<Longrightarrow> metrics_ok (fst (countTxTotal h s))"
  by (simp add: countTxTotal_def Let_def recordWasmMemory_ok incrementCoreCounter_ok name_classes
      del: append_Cons)

lemma rule_series_ok:
  assumes "metrics_ok (fst s)" "e \<in> {''tx.interruptions'', ''rule.matches''}"
  shows "metrics_ok (fst (snd (count_rule_series h (legacy (rule_series e i p x)) s)))"
    and "metrics_ok (fst (snd (count_rule_series h (product (rule_series e i p x)) s)))"
  using assms(2) by (auto intro: count_rule_series_ok [OF assms(1)] simp: name_classes)

lemma countTxInterruption_ok:
  assumes "metrics_ok (fst s)"
  shows "metrics_ok (fst (countTxInterruption h phase rule_id s))"
proof -
  define p where "p = (if phase = [] then ''unknown'' else phase)"
  define s1 where "s1 = count_both h (''tx.interruptions_phase='' @ p @ label_suffix (fst s)) s"
  define name where "name = rule_series ''tx.interruptions'' rule_id p (label_suffix (fst s))"
  obtain go s2 where s2: "count_rule_series h (legacy name) s1 = (go, s2)"
    by (cases "count_rule_series h (legacy name) s1")
  have 1: "metrics_ok (fst s1)"
    unfolding s1_def by (rule count_both_ok [OF assms]) (rule name_classes)+
  then have 2: "metrics_ok (fst s2)"
    using rule_series_ok(1) [of s1 "''tx.interruptions''" h rule_id p] s2 by (metis insertI1 name_def snd_conv)
  then have 3: "metrics_ok (fst (snd (count_rule_series h (product name) s2)))"
    unfolding name_def by (rule rule_series_ok(2)) simp
  have "countTxInterruption h phase rule_id s =
      (if \<not> enabled (options (fst s)) then s
       else if \<not> per_rule_id (options (fst s1)) \<or> rule_id \<le> 0 then s1
       else if \<not> go then s2
       else if dual_prefix (options (fst s2)) then snd (count_rule_series h (product name) s2) else s2)"
    unfolding countTxInterruption_def Let_def p_def [symmetric] s1_def [symmetric] name_def [symmetric] s2
    by simp
  with assms 1 2 3 show ?thesis by simp
qed

lemma count_tags_ok: "metrics_ok (fst s) \<Longrightarrow> metrics_ok (fst (count_tags h phase tags s))"
proof (induction tags arbitrary: s)
  case (Cons tag tags)
  define name where "name = ''rule.matches_tag='' @ sanitizeTagForMetric tag @ ''_phase='' @ phase @ label_suffix (fst s)"
  obtain go s1 where s1: "count_tag_series h (legacy name) s = (go, s1)"
    by (cases "count_tag_series h (legacy name) s")
  have n: "\<not> rule_series_name (legacy name)" "\<not> rule_series_name (product name)"
    unfolding name_def by (rule name_classes)+
  have 1: "metrics_ok (fst s1)" using count_tag_series_ok [OF Cons.prems n(1), of h] s1 by simp
  have 2: "metrics_ok (fst (snd (count_tag_series h (product name) s1)))"
    by (rule count_tag_series_ok [OF 1 n(2)])
  have "count_tags h phase (tag # tags) s =
      (if \<not> isInterestingRuleTag tag then count_tags h phase tags s
       else count_tags h phase tags (if \<not> go then s1
         else if dual_prefix (options (fst s1)) then snd (count_tag_series h (product name) s1) else s1))"
    unfolding count_tags.simps Let_def name_def [symmetric] s1 by simp
  with Cons 1 2 show ?case by simp
qed simp

lemma countRuleMatch_ok:
  assumes "metrics_ok (fst s)"
  shows "metrics_ok (fst (countRuleMatch h ph sev d rule_id tags s))"
proof -
  let ?p = "phaseNameFromRule ph" and ?x = "label_suffix (fst s)"
  define by_severity where "by_severity = ''_phase='' @ ?p @ ''_severity='' @ int_to_string sev @ ?x"
  define s1 where "s1 = count_both h (''rule.matches'' @ ?x) s"
  define s2 where "s2 = count_both h (''rule.matches'' @ by_severity) s1"
  define s3 where "s3 = (if d then count_both h (''rule.matches_disruptive'' @ by_severity)
      (count_both h (''rule.matches_disruptive'' @ ?x) s2) else s2)"
  define name where "name = rule_series ''rule.matches'' rule_id ?p ?x"
  define t where "t = snd (count_rule_series h (legacy name) s3)"
  define s4 where "s4 = (if per_rule_id (options (fst s3)) \<and> 0 < rule_id
      then if dual_prefix (options (fst t)) then snd (count_rule_series h (product name) t) else t else s3)"
  have 1: "metrics_ok (fst s1)"
    unfolding s1_def using assms suffix_ok by (intro count_both_ok core_name_matches) auto
  have "suffix_safe by_severity" by (simp add: by_severity_def suffix_safe_def)
  with 1 have 2: "metrics_ok (fst s2)"
    unfolding s2_def by (intro count_both_ok core_name_matches) auto
  then have 3: "metrics_ok (fst s3)"
    unfolding s3_def by (simp add: count_both_ok name_classes del: append_Cons)
  then have "metrics_ok (fst t)" unfolding t_def name_def by (rule rule_series_ok(1)) simp
  then have 4: "metrics_ok (fst s4)"
    unfolding s4_def using 3 rule_series_ok(2) [of t "''rule.matches''" h rule_id ?p ?x]
    by (simp add: name_def)
  have "countRuleMatch h ph sev d rule_id tags s =
      (if \<not> enabled (options (fst s)) then s
       else if \<not> rule_tags (options (fst s4)) then s4 else count_tags h ?p tags s4)"
    unfolding countRuleMatch_def Let_def by_severity_def [symmetric] s1_def [symmetric] s2_def [symmetric]
      s3_def [symmetric] name_def [symmetric] t_def [symmetric] s4_def [symmetric] ..
  with assms 4 count_tags_ok [OF 4] show ?thesis by simp
qed

section \<open>Runs\<close>

text \<open>What the filter counts, and the states reachable after a configure step.\<close>

datatype metric_event =
    TxTotal
  | TxAllowed
  | TxInterruption string int
  | RuleMatch int int bool int "string list"
  | ResponseBodySanitized
  | ConfigureFallbackRules
  | WasmMemory

fun count_event :: "host \<Rightarrow> metric_event \<Rightarrow> metric_state \<Rightarrow> metric_state" where
  "count_event h TxTotal s = countTxTotal h s"
| "count_event h TxAllowed s = countTxAllowed h s"
| "count_event h (TxInterruption phase rule_id) s = countTxInterruption h phase rule_id s"
| "count_event h (RuleMatch ph sev d rule_id tags) s = countRuleMatch h ph sev d rule_id tags s"
| "count_event h ResponseBodySanitized s = countResponseBodySanitized h s"
| "count_event h ConfigureFallbackRules s = countConfigureFallbackRules h s"
| "count_event h WasmMemory s = recordWasmMemory h s"

definition count_events :: "host \<Rightarrow> metric_event list \<Rightarrow> metric_state \<Rightarrow> metric_state" where
  "count_events h es s = fold (count_event h) es s"

lemma count_event_ok: "metrics_ok (fst s) \<Longrightarrow> metrics_ok (fst (count_event h e s))"
proof (cases e)
  case ConfigureFallbackRules
  assume "metrics_ok (fst s)"
  then show ?thesis unfolding ConfigureFallbackRules
    by (simp add: countConfigureFallbackRules_def Let_def incrementCoreCounter_ok name_classes del: append_Cons)
qed (simp_all add: countTxTotal_ok countTxInterruption_ok countRuleMatch_ok recordWasmMemory_ok
    countTxAllowed_def countResponseBodySanitized_def incrementCoreCounter_ok name_classes del: append_Cons)

lemma count_events_ok: "metrics_ok (fst s) \<Longrightarrow> metrics_ok (fst (count_events h es s))"
  unfolding count_events_def by (induction es arbitrary: s) (simp_all add: count_event_ok)

section \<open>Properties\<close>

text \<open>
  C14: after any configuration and any sequence of counted events, whatever
  ids and tags the rules carry and whatever the host answers, at most 512 per-rule series and
  128 per-tag series are registered. The labels of the configuration cannot imitate a series
  and escape the count.
\<close>

theorem series_bounded:
  "let ids = metric_ids (fst (count_events h es (metrics_configure h opts s)))
   in card {n \<in> dom ids. rule_series_name n} \<le> 512 \<and> card {n \<in> dom ids. tag_series_name n} \<le> 128"
proof -
  have "metrics_ok (fst (count_events h es (metrics_configure h opts s)))"
    by (rule count_events_ok [OF metrics_configure_ok])
  then have "let ids = metric_ids (fst (count_events h es (metrics_configure h opts s)))
    in card {n \<in> dom ids. rule_series_name n} \<le> kMaxDistinctRuleMetrics \<and>
       card {n \<in> dom ids. tag_series_name n} \<le> kMaxDistinctTagMetrics"
    unfolding metrics_ok_def rule_budget.in_budget_def tag_budget.in_budget_def Let_def by linarith
  then show ?thesis by (simp only: kMaxDistinctRuleMetrics_def kMaxDistinctTagMetrics_def)
qed

lemma silent_events:
  assumes "\<not> enabled (options (fst s))" "e \<noteq> ConfigureFallbackRules"
  shows "snd (count_event h e s) = snd s \<and> options (fst (count_event h e s)) = options (fst s)"
  using assms
  by (cases e) (auto simp: countTxTotal_def countTxAllowed_def countTxInterruption_def countRuleMatch_def
      countResponseBodySanitized_def incrementCoreCounter_def recordWasmMemory_def Let_def)

text \<open>
  C40: with metrics disabled, no event makes a host call: the only
  exception is the fallback counter, which is always emitted, and it does not switch the
  metrics on.
\<close>

theorem disabled_metrics_silent:
  assumes "\<not> enabled opts"
  shows "(ConfigureFallbackRules \<notin> set es \<longrightarrow> snd (count_events h es (metrics_configure h opts s)) = snd s) \<and>
    \<not> enabled (options (fst (count_events h es (metrics_configure h opts s))))"
proof -
  let ?c = "metrics_configure h opts s"
  have c: "snd ?c = snd s" "\<not> enabled (options (fst ?c))"
    using assms by (simp_all add: metrics_configure_def Let_def)
  have off: "\<not> enabled (options (fst (count_event h e t)))" if "\<not> enabled (options (fst t))" for e t
    using that silent_events [OF that, of e h]
    by (cases "e = ConfigureFallbackRules") (auto simp: countConfigureFallbackRules_def set_enabled_def Let_def)
  have 1: "\<not> enabled (options (fst (count_events h es t)))" if "\<not> enabled (options (fst t))" for t
    using that unfolding count_events_def by (induction es arbitrary: t) (simp_all add: off)
  have 2: "snd (count_events h es t) = snd t"
    if "\<not> enabled (options (fst t))" "ConfigureFallbackRules \<notin> set es" for t
    using that unfolding count_events_def
    by (induction es arbitrary: t) (auto simp add: silent_events off)
  show ?thesis using 1 2 c by simp
qed

definition metric_host :: host where
  "metric_host = \<lparr>define_metric = (\<lambda>tr k n. Some (length tr)), heap_size = (\<lambda>tr. 1),
     set_filter_state = (\<lambda>tr k v. True)\<rparr>"

lemma disabled_metrics_silent_witness:
  "snd (count_events metric_host [TxTotal, RuleMatch 1 2 True 941100 [''attack-xss'']]
     (metrics_configure metric_host (default_metric_options\<lparr>enabled := False\<rparr>) (new_metrics, []))) = []"
  using disabled_metrics_silent [of "default_metric_options\<lparr>enabled := False\<rparr>"
      "[TxTotal, RuleMatch 1 2 True 941100 [''attack-xss'']]" metric_host "(new_metrics, [])"]
  by simp

text \<open>
  The tag part of a metric name is never empty and holds only
  letters, digits, hyphens, underscores and points, whatever the tag holds.
\<close>

theorem tag_names_sanitized:
  "sanitizeTagForMetric tag \<noteq> [] \<and> list_all tag_char (sanitizeTagForMetric tag)"
proof -
  have "list_all tag_char (sanitize_loop t)" for t
    by (induction t) (auto simp: tag_char_def)
  moreover have "list_all tag_char ''unknown''"
    by (simp add: tag_char_def is_alnum_def is_digit_def is_alpha_def)
  ultimately show ?thesis by (simp add: sanitizeTagForMetric_def Let_def del: list.pred_inject(2))
qed

text \<open>
  The filter looks at one label at a time: two labels that are harmless by themselves join to
  a reserved identity fragment.
\<close>

lemma labels_join_to_identity:
  "contains (label_loop [(''a'', ''x_waf''), (''name'', ''y'')]) ''_waf_name=''"
  by code_simp

end
