(* ===== verification/Telemetry.thy ===== *)
theory Telemetry
  imports Cxx_Num
begin

text \<open>
  The telemetry decisions of \<^verbatim>\<open>src/src/waf_config.cc\<close>: sampling by a hash of the stream
  id, the action name of an intervention, and the test for secrets in match data.
\<close>

unbundle bit_operations_syntax

section \<open>Sampling\<close>

text \<open>The 32-bit FNV-1a hash; the multiplication wraps.\<close>

fun fnv1a :: "32 word \<Rightarrow> string \<Rightarrow> 32 word" where
  "fnv1a h [] = h"
| "fnv1a h (c # cs) = fnv1a ((h XOR word_of_nat (byte c)) * 16777619) cs"

definition sample_bucket :: "string \<Rightarrow> nat" where
  "sample_bucket seed = unat (fnv1a 2166136261 seed mod 10000)"

definition bucket_double :: "nat \<Rightarrow> double" where
  "bucket_double b = double_of_rat (of_nat b / 10000)"

definition wafTelemetrySampleAt :: "double \<Rightarrow> string \<Rightarrow> bool" where
  "wafTelemetrySampleAt rate seed =
     (if dbl_le (Fin 1) rate then True
      else if dbl_le rate (Fin 0) then False
      else dbl_less (bucket_double (sample_bucket seed)) rate)"

section \<open>Actions and secrets\<close>

definition wafTelemetryAction :: "bool \<Rightarrow> bool \<Rightarrow> int \<Rightarrow> string \<Rightarrow> string" where
  "wafTelemetryAction interrupted has_redirect_url status intervention_log =
     (if \<not> interrupted then ''pass''
      else if has_redirect_url then ''redirect''
      else if status = 0 \<or> contains intervention_log ''drop'' then ''drop''
      else ''deny'')"

definition wafTelemetryLooksSecret :: "string \<Rightarrow> bool" where
  "wafTelemetryLooksSecret data =
     list_ex (contains data) [''Bearer '', ''bearer '', ''Authorization'', ''authorization'',
       ''Cookie:'', ''cookie:'', ''Set-Cookie'', ''set-cookie'']"

section \<open>Sampling is monotone in the rate\<close>

lemma sample_bucket_less: "sample_bucket seed < 10000"
proof -
  have "sample_bucket seed = unat (fnv1a 2166136261 seed) mod 10000"
    by (simp add: sample_bucket_def unat_mod)
  then show ?thesis by simp
qed

lemma dbl_less_le_trans: "dbl_less a b \<Longrightarrow> dbl_le b c \<Longrightarrow> dbl_less a c"
  by (cases a; cases b; cases c) auto

lemma dbl_le_trans: "dbl_le a b \<Longrightarrow> dbl_le b c \<Longrightarrow> dbl_le a c"
  by (cases a; cases b; cases c) auto

text \<open>
  C38: raising the rate never drops a stream that was sampled before, and
  the decision depends on the stream id only: a rate of one or more samples every stream, a
  rate of zero or less none, and a rate that is not a number none.
\<close>

theorem sampling_monotone:
  "(wafTelemetrySampleAt rate seed \<longrightarrow> dbl_le rate rate' \<longrightarrow> wafTelemetrySampleAt rate' seed) \<and>
   (dbl_le (Fin 1) rate \<longrightarrow> wafTelemetrySampleAt rate seed) \<and>
   (dbl_le rate (Fin 0) \<longrightarrow> \<not> wafTelemetrySampleAt rate seed) \<and>
   \<not> wafTelemetrySampleAt NaN seed"
proof (intro conjI impI)
  assume s: "wafTelemetrySampleAt rate seed" and le: "dbl_le rate rate'"
  show "wafTelemetrySampleAt rate' seed"
  proof (cases "dbl_le (Fin 1) rate")
    case True
    then show ?thesis using dbl_le_trans le by (simp add: wafTelemetrySampleAt_def)
  next
    case False
    with s have "\<not> dbl_le rate (Fin 0)" "dbl_less (bucket_double (sample_bucket seed)) rate"
      by (auto simp: wafTelemetrySampleAt_def split: if_splits)
    with le dbl_le_trans dbl_less_le_trans show ?thesis
      by (auto simp: wafTelemetrySampleAt_def)
  qed
next
  assume le: "dbl_le rate (Fin 0)"
  have "\<not> dbl_le (Fin 1) rate"
  proof
    assume "dbl_le (Fin 1) rate"
    from dbl_le_trans [OF this le] show False by simp
  qed
  with le show "\<not> wafTelemetrySampleAt rate seed" by (simp add: wafTelemetrySampleAt_def)
next
  show "\<not> wafTelemetrySampleAt NaN seed"
    by (cases "bucket_double (sample_bucket seed)") (simp_all add: wafTelemetrySampleAt_def)
qed (simp add: wafTelemetrySampleAt_def)

lemma sampling_monotone_witness:
  "wafTelemetrySampleAt (Fin 2) ''7'' \<and> \<not> wafTelemetrySampleAt (Fin 0) ''7''"
  using sampling_monotone [of "Fin 2" "''7''" "Fin 2"] sampling_monotone [of "Fin 0" "''7''"] by simp

end
