(* ===== verification/Http_Text.thy ===== *)
theory Http_Text
  imports Cxx_Num
begin

text \<open>
  The helpers on HTTP text of \<^verbatim>\<open>src/src/modsecurity_proxy_wasm.cc\<close>: which messages may have a
  body, header names, content length, protocol tokens.
\<close>

definition methodMayHaveBody :: "string \<Rightarrow> bool" where
  "methodMayHaveBody m \<longleftrightarrow> m \<noteq> ''GET'' \<and> m \<noteq> ''HEAD'' \<and> m \<noteq> ''OPTIONS'' \<and> m \<noteq> ''TRACE''"

definition statusMayHaveBody :: "int \<Rightarrow> bool" where
  "statusMayHaveBody status = (if status < 200 then False else status \<noteq> 204 \<and> status \<noteq> 304)"

fun equal_ignoring_case :: "string \<Rightarrow> string \<Rightarrow> bool" where
  "equal_ignoring_case (a # as) (b # bs) =
     (if to_lower a \<noteq> to_lower b then False else equal_ignoring_case as bs)"
| "equal_ignoring_case _ _ = True"

definition headerNameEquals :: "string \<Rightarrow> string \<Rightarrow> bool" where
  "headerNameEquals name target =
     (if length name \<noteq> length target then False else equal_ignoring_case name target)"

definition isChunkedTransferEncoding :: "string \<Rightarrow> bool" where
  "isChunkedTransferEncoding value = contains (lower value) ''chunked''"

text \<open>\<^verbatim>\<open>size_t\<close> has 32 bits: the conversion from 64 bits truncates.\<close>

definition parseContentLength :: "string \<Rightarrow> int" where
  "parseContentLength cl =
     (if cl = [] then 0 else (case strtoull cl of None \<Rightarrow> 0 | Some v \<Rightarrow> v mod 2 ^ 32))"

definition modsecHttpVersionToken :: "string \<Rightarrow> string" where
  "modsecHttpVersionToken protocol =
     (let p = (if 5 \<le> length protocol \<and> to_lower (hd protocol) = CHR ''h'' \<and>
              (substr 1 4 protocol = ''TTP/'' \<or> substr 1 4 protocol = ''ttp/'')
            then drop 5 protocol else protocol)
      in if p = [] then ''1.1'' else if p = ''2'' then ''2.0'' else if p = ''3'' then ''3.0'' else p)"

definition modsecHttpProtocol :: "string \<Rightarrow> string" where
  "modsecHttpProtocol version_token = ''HTTP/'' @ version_token"

lemma headerNameEquals_iff: "headerNameEquals a b \<longleftrightarrow> lower a = lower b"
proof (cases "length a = length b")
  case True
  then have "equal_ignoring_case a b \<longleftrightarrow> lower a = lower b"
    by (induction a b rule: list_induct2) (simp_all add: lower_def)
  with True show ?thesis by (simp add: headerNameEquals_def)
next
  case False
  then have "lower a \<noteq> lower b" by (metis length_map lower_def)
  with False show ?thesis by (simp add: headerNameEquals_def)
qed

lemma parseContentLength_range: "0 \<le> parseContentLength s \<and> parseContentLength s < 2 ^ 32"
  by (simp add: parseContentLength_def split: option.split)

text \<open>A declared length of $2^{32}$ bytes is read as no body.\<close>

lemma parseContentLength_wraps: "parseContentLength ''4294967296'' = 0"
  by code_simp

section \<open>Properties\<close>

text \<open>
  Header names compare as their lower-case texts; a content length is read as
  a 32-bit number whatever the header says; and the version token is never empty and is not
  changed by naming the protocol again.
\<close>

theorem http_text:
  "(headerNameEquals a b \<longleftrightarrow> lower a = lower b) \<and>
   0 \<le> parseContentLength v \<and> parseContentLength v < 2 ^ 32 \<and>
   modsecHttpVersionToken p \<noteq> [] \<and>
   modsecHttpVersionToken (modsecHttpProtocol (modsecHttpVersionToken p)) = modsecHttpVersionToken p"
proof -
  have ne: "modsecHttpVersionToken p \<noteq> []" for p by (simp add: modsecHttpVersionToken_def Let_def)
  have n2: "modsecHttpVersionToken p \<noteq> ''2''" "modsecHttpVersionToken p \<noteq> ''3''" for p
    by (simp_all add: modsecHttpVersionToken_def Let_def)
  have h: "to_lower (CHR ''H'') = CHR ''h''" by code_simp
  have again: "modsecHttpVersionToken (''HTTP/'' @ t) = t" if "t \<noteq> []" "t \<noteq> ''2''" "t \<noteq> ''3''" for t
    using that by (simp add: modsecHttpVersionToken_def substr_def h)
  show ?thesis
    unfolding modsecHttpProtocol_def again [OF ne n2]
    using headerNameEquals_iff parseContentLength_range ne by blast
qed

end
