(* ===== verification/Fullwidth.thy ===== *)
theory Fullwidth
  imports Prelude
begin

text \<open>
  Folding of Unicode fullwidth ASCII (\<^verbatim>\<open>normalizeFullwidthAsciiInPlace\<close> in
  \<^verbatim>\<open>src/src/modsecurity_proxy_wasm.cc\<close>): raw UTF-8 and percent-encoded UTF-8 of
  U+FF01..U+FF5E become the ASCII characters 0x21..0x7E.
\<close>

section \<open>The fold\<close>

definition hexNibble :: "char \<Rightarrow> int" where
  "hexNibble c =
     (let b = int (byte c) in
      if 48 \<le> b \<and> b \<le> 57 then b - 48
      else if 97 \<le> b \<and> b \<le> 102 then b - 97 + 10
      else if 65 \<le> b \<and> b \<le> 70 then b - 65 + 10
      else - 1)"

definition mayContainFullwidth :: "string \<Rightarrow> bool" where
  "mayContainFullwidth s = list_ex (\<lambda>c. 0x80 \<le> byte c \<or> c = CHR ''%'') s"

text \<open>The code point of the last two bytes of a sequence that starts with 0xEF, or -1.\<close>

definition fullwidth_cp :: "int \<Rightarrow> int \<Rightarrow> int" where
  "fullwidth_cp b1 b2 =
     (if b1 = 0xBC \<and> 0x81 \<le> b2 \<and> b2 \<le> 0xBF then 0xFF00 + (b2 - 0x80)
      else if b1 = 0xBD \<and> 0x80 \<le> b2 \<and> b2 \<le> 0x9E then 0xFF40 + (b2 - 0x80)
      else - 1)"

definition ascii_of_cp :: "int \<Rightarrow> char option" where
  "ascii_of_cp cp = (if 0xFF01 \<le> cp \<and> cp \<le> 0xFF5E then Some (char_of (nat (cp - 0xFEE0))) else None)"

text \<open>A raw sequence and a percent-encoded sequence at the head of the text.\<close>

fun raw_fold :: "string \<Rightarrow> char option" where
  "raw_fold (c0 # c1 # c2 # cs) =
     (if byte c0 = 0xEF then ascii_of_cp (fullwidth_cp (int (byte c1)) (int (byte c2))) else None)"
| "raw_fold _ = None"

fun pct_fold :: "string \<Rightarrow> char option" where
  "pct_fold (p0 # x0 # x1 # p1 # x2 # x3 # p2 # x4 # x5 # cs) =
     (if p0 = CHR ''%'' \<and> p1 = CHR ''%'' \<and> p2 = CHR ''%'' then
        (let h0 = hexNibble x0; h1 = hexNibble x1; h2 = hexNibble x2; h3 = hexNibble x3;
             h4 = hexNibble x4; h5 = hexNibble x5
         in if 0 \<le> h0 \<and> 0 \<le> h1 \<and> 0 \<le> h2 \<and> 0 \<le> h3 \<and> 0 \<le> h4 \<and> 0 \<le> h5 then
              (if h0 * 16 + h1 = 0xEF
               then ascii_of_cp (fullwidth_cp (h2 * 16 + h3) (h4 * 16 + h5)) else None)
            else None)
      else None)"
| "pct_fold _ = None"

text \<open>The loop: the output and whether anything was folded.\<close>

function fold_loop :: "string \<Rightarrow> string \<times> bool" where
  "fold_loop s =
     (if s = [] then ([], False)
      else (case raw_fold s of
          Some a \<Rightarrow> (a # fst (fold_loop (drop 3 s)), True)
        | None \<Rightarrow>
          (case pct_fold s of
             Some a \<Rightarrow> (a # fst (fold_loop (drop 9 s)), True)
           | None \<Rightarrow> (case fold_loop (tl s) of (out, changed) \<Rightarrow> (hd s # out, changed)))))"
  by pat_completeness auto
termination
  by (relation "measure length") auto

declare fold_loop.simps [simp del]

definition normalizeFullwidthAscii :: "string \<Rightarrow> string" where
  "normalizeFullwidthAscii s =
     (if length s < 3 \<or> \<not> mayContainFullwidth s then s
      else (case fold_loop s of (out, changed) \<Rightarrow> if changed then out else s))"

section \<open>The fast path\<close>

lemma fold_loop_Nil [simp]: "fold_loop [] = ([], False)"
  by (simp add: fold_loop.simps)

lemma fold_loop_Cons:
  "fold_loop (c # cs) = (case raw_fold (c # cs) of
      Some a \<Rightarrow> (a # fst (fold_loop (drop 2 cs)), True)
    | None \<Rightarrow> (case pct_fold (c # cs) of
         Some a \<Rightarrow> (a # fst (fold_loop (drop 8 cs)), True)
       | None \<Rightarrow> (c # fst (fold_loop cs), snd (fold_loop cs))))"
  by (subst fold_loop.simps) (simp add: prod.case_eq_if split: option.split)

lemma raw_fold_None: "length s < 3 \<or> byte (hd s) \<noteq> 0xEF \<Longrightarrow> raw_fold s = None"
  by (induction s rule: raw_fold.induct) auto

lemma pct_fold_None: "length s < 9 \<or> hd s \<noteq> CHR ''%'' \<Longrightarrow> pct_fold s = None"
  by (induction s rule: pct_fold.induct) auto

lemma fold_loop_unchanged: "\<not> snd (fold_loop s) \<Longrightarrow> fst (fold_loop s) = s"
proof (induction s)
  case (Cons c cs)
  then show ?case by (auto simp: fold_loop_Cons split: option.splits)
qed simp

lemma fold_loop_plain: "\<not> mayContainFullwidth s \<Longrightarrow> \<not> snd (fold_loop s)"
proof (induction s)
  case (Cons c cs)
  then have "raw_fold (c # cs) = None" "pct_fold (c # cs) = None" "\<not> mayContainFullwidth cs"
    by (auto simp: mayContainFullwidth_def intro!: raw_fold_None pct_fold_None)
  with Cons.IH show ?case by (simp add: fold_loop_Cons)
qed simp

lemma fold_loop_short: "length s < 3 \<Longrightarrow> \<not> snd (fold_loop s)"
proof (induction s)
  case (Cons c cs)
  then have "raw_fold (c # cs) = None" "pct_fold (c # cs) = None"
    by (auto intro!: raw_fold_None pct_fold_None)
  with Cons show ?case by (simp add: fold_loop_Cons)
qed simp

lemma normalize_eq: "normalizeFullwidthAscii s = fst (fold_loop s)"
  using fold_loop_unchanged [of s] fold_loop_plain [of s] fold_loop_short [of s]
  by (auto simp: normalizeFullwidthAscii_def prod.case_eq_if)

lemma normalize_Cons:
  "normalizeFullwidthAscii (c # cs) = (case raw_fold (c # cs) of
      Some a \<Rightarrow> a # normalizeFullwidthAscii (drop 2 cs)
    | None \<Rightarrow> (case pct_fold (c # cs) of
         Some a \<Rightarrow> a # normalizeFullwidthAscii (drop 8 cs)
       | None \<Rightarrow> c # normalizeFullwidthAscii cs))"
  by (simp add: normalize_eq fold_loop_Cons split: option.split)

lemma normalize_Nil [simp]: "normalizeFullwidthAscii [] = []"
  by (simp add: normalize_eq)

lemma length_normalize: "length (normalizeFullwidthAscii s) \<le> length s"
proof (induction s rule: length_induct)
  case (1 s)
  show ?case
  proof (cases s)
    case (Cons c cs)
    have d: "length (normalizeFullwidthAscii (drop k cs)) \<le> length cs" for k
    proof -
      have "length (drop k cs) < length s" using Cons by simp
      with 1 have "length (normalizeFullwidthAscii (drop k cs)) \<le> length (drop k cs)" by blast
      then show ?thesis by simp
    qed
    from d [of 0] d [of 2] d [of 8] show ?thesis
      by (simp add: Cons normalize_Cons split: option.split)
  qed simp
qed

section \<open>No raw fullwidth sequence is left\<close>

lemma ascii_of_cp_byte: "ascii_of_cp cp = Some a \<Longrightarrow> byte a < 0x80"
  by (auto simp: ascii_of_cp_def split: if_splits)

lemma raw_fold_ascii: "raw_fold s = Some a \<Longrightarrow> byte a < 0x80"
  by (induction s rule: raw_fold.induct) (auto split: if_splits dest: ascii_of_cp_byte)

lemma pct_fold_ascii: "pct_fold s = Some a \<Longrightarrow> byte a < 0x80"
  by (induction s rule: pct_fold.induct) (auto simp: Let_def split: if_splits dest: ascii_of_cp_byte)

lemma pct_fold_head: "pct_fold s = Some a \<Longrightarrow> s \<noteq> [] \<and> hd s = CHR ''%''"
  by (induction s rule: pct_fold.induct) (auto split: if_splits)

text \<open>High bytes at the head of the output are the bytes at the head of the input.\<close>

lemma normalize_high:
  assumes "normalizeFullwidthAscii s = c # t" "0x80 \<le> byte c"
  shows "\<exists>r. s = c # r \<and> t = normalizeFullwidthAscii r \<and> raw_fold s = None"
proof (cases s)
  case (Cons d ds)
  with assms show ?thesis
    by (auto simp: normalize_Cons split: option.splits dest: raw_fold_ascii pct_fold_ascii)
qed (use assms in simp)

lemma raw_fold_high: "raw_fold (c # d # e # t) = Some a \<Longrightarrow> 0x80 \<le> byte c \<and> 0x80 \<le> byte d \<and> 0x80 \<le> byte e"
  by (auto simp: fullwidth_cp_def ascii_of_cp_def split: if_splits)

lemma raw_fold_cong: "raw_fold (c # d # e # t) = raw_fold (c # d # e # t')"
  by simp

lemma raw_fold_length: "raw_fold s = Some a \<Longrightarrow> \<exists>c d e t. s = c # d # e # t"
  by (induction s rule: raw_fold.induct) auto

lemma normalize_head: "raw_fold (normalizeFullwidthAscii s) = None"
proof (rule ccontr)
  assume "raw_fold (normalizeFullwidthAscii s) \<noteq> None"
  then obtain a where a: "raw_fold (normalizeFullwidthAscii s) = Some a" by auto
  then obtain c d e t where n: "normalizeFullwidthAscii s = c # d # e # t" using raw_fold_length by blast
  with a have hi: "0x80 \<le> byte c" "0x80 \<le> byte d" "0x80 \<le> byte e" using raw_fold_high by metis+
  obtain r where r: "s = c # r" "d # e # t = normalizeFullwidthAscii r" "raw_fold s = None"
    using normalize_high [OF n hi(1)] by blast
  obtain q where q: "r = d # q" "e # t = normalizeFullwidthAscii q"
    using normalize_high [OF r(2) [symmetric] hi(2)] by blast
  obtain p where "q = e # p" using normalize_high [OF q(2) [symmetric] hi(3)] by blast
  with r q have "raw_fold (c # d # e # p) = None" by simp
  with a n show False by simp
qed

lemma normalize_drop: "raw_fold (drop k (normalizeFullwidthAscii s)) = None"
proof (induction s arbitrary: k rule: length_induct)
  case (1 s)
  show ?case
  proof (cases k)
    case 0
    then show ?thesis using normalize_head by simp
  next
    case (Suc j)
    show ?thesis
    proof (cases s)
      case (Cons c cs)
      have d: "raw_fold (drop j (normalizeFullwidthAscii (drop i cs))) = None" for i
        using 1 Cons by (auto simp: less_Suc_eq_le)
      from d [of 0] d [of 2] d [of 8] show ?thesis
        by (simp add: Suc Cons normalize_Cons split: option.split)
    qed simp
  qed
qed

section \<open>Spellings\<close>

text \<open>
  How a text may be spelled: a byte as it stands, or an ASCII character 0x21..0x7E as a
  fullwidth character, raw or percent-encoded with hexadecimal digits of either case.
\<close>

datatype spelled = AsIs char | Wide char | Percent "char list" char

definition wide_bytes :: "char \<Rightarrow> nat list" where
  "wide_bytes c = (if byte c < 0x60 then [0xEF, 0xBC, byte c + 0x60] else [0xEF, 0xBD, byte c + 0x20])"

fun spelling :: "spelled \<Rightarrow> string" where
  "spelling (AsIs c) = [c]"
| "spelling (Wide c) = map char_of (wide_bytes c)"
| "spelling (Percent hex c) = (case hex of [a, b, d, e, f, g] \<Rightarrow> ''%'' @ [a, b] @ ''%'' @ [d, e] @ ''%'' @ [f, g] | _ \<Rightarrow> [])"

fun meaning :: "spelled \<Rightarrow> char" where
  "meaning (AsIs c) = c"
| "meaning (Wide c) = c"
| "meaning (Percent hex c) = c"

definition printable :: "char \<Rightarrow> bool" where
  "printable c \<longleftrightarrow> 0x21 \<le> byte c \<and> byte c \<le> 0x7E"

fun well_spelled :: "spelled \<Rightarrow> bool" where
  "well_spelled (AsIs c) = (byte c \<noteq> 0xEF \<and> c \<noteq> CHR ''%'')"
| "well_spelled (Wide c) = printable c"
| "well_spelled (Percent hex c) = (printable c \<and> (case hex of [a, b, d, e, f, g] \<Rightarrow>
     0 \<le> hexNibble a \<and> 0 \<le> hexNibble b \<and> 0 \<le> hexNibble d \<and> 0 \<le> hexNibble e \<and>
     0 \<le> hexNibble f \<and> 0 \<le> hexNibble g \<and>
     map int (wide_bytes c) = [hexNibble a * 16 + hexNibble b, hexNibble d * 16 + hexNibble e,
       hexNibble f * 16 + hexNibble g] | _ \<Rightarrow> False))"

lemma wide_bytes_three: obtains x y z where "wide_bytes c = [x, y, z]"
  by (cases "byte c < 0x60") (simp_all add: wide_bytes_def)

lemma wide_cp:
  assumes "printable c" "wide_bytes c = [x, y, z]"
  shows "x = 0xEF" "ascii_of_cp (fullwidth_cp (int y) (int z)) = Some c" "y < 256" "z < 256"
proof -
  have "char_of (nat (int (byte c))) = c" by simp
  with assms show "x = 0xEF" "ascii_of_cp (fullwidth_cp (int y) (int z)) = Some c" "y < 256" "z < 256"
    by (auto simp: wide_bytes_def printable_def fullwidth_cp_def ascii_of_cp_def split: if_splits)
qed

lemma byte_char_of_less [simp]: "n < 256 \<Longrightarrow> byte (char_of n) = n"
  by simp

lemma normalize_spelled:
  assumes "well_spelled w"
  shows "normalizeFullwidthAscii (spelling w @ s) = meaning w # normalizeFullwidthAscii s"
  using assms
proof (cases w)
  case (AsIs c)
  with assms have "raw_fold (c # s) = None" "pct_fold (c # s) = None"
    by (auto intro!: raw_fold_None pct_fold_None)
  with AsIs show ?thesis by (simp add: normalize_Cons)
next
  case (Wide c)
  obtain x y z where b: "wide_bytes c = [x, y, z]" by (rule wide_bytes_three)
  from Wide assms wide_cp [OF _ b] have "x = 0xEF" "y < 256" "z < 256"
    "ascii_of_cp (fullwidth_cp (int y) (int z)) = Some c" by simp_all
  with Wide b show ?thesis by (simp add: normalize_Cons)
next
  case (Percent hex c)
  with assms obtain a b d e f g where h: "hex = [a, b, d, e, f, g]"
    by (auto split: list.splits)
  obtain x y z where w: "wide_bytes c = [x, y, z]" by (rule wide_bytes_three)
  from Percent assms wide_cp [OF _ w] have x: "x = 0xEF"
    "ascii_of_cp (fullwidth_cp (int y) (int z)) = Some c" by simp_all
  have n: "0 \<le> hexNibble a" "0 \<le> hexNibble b" "0 \<le> hexNibble d" "0 \<le> hexNibble e"
    "0 \<le> hexNibble f" "0 \<le> hexNibble g" "hexNibble a * 16 + hexNibble b = int x"
    "hexNibble d * 16 + hexNibble e = int y" "hexNibble f * 16 + hexNibble g = int z"
    using Percent assms h w by simp_all
  have "pct_fold (CHR ''%'' # a # b # CHR ''%'' # d # e # CHR ''%'' # f # g # s) = Some c"
    using n x by (simp add: Let_def)
  moreover have "raw_fold (CHR ''%'' # t) = None" for t by (rule raw_fold_None) simp
  ultimately show ?thesis using Percent h by (simp add: normalize_Cons)
qed

section \<open>Properties\<close>

text \<open>
  C21: every spelling of a text with fullwidth characters, raw or
  percent-encoded, in any mixture, is folded to the text itself: an attack written with
  fullwidth characters reaches the rules in ASCII.
\<close>

theorem fullwidth_folded:
  assumes "list_all well_spelled ws"
  shows "normalizeFullwidthAscii (concat (map spelling ws)) = map meaning ws"
  using assms by (induction ws) (simp_all add: normalize_spelled)

lemma fullwidth_folded_witness:
  "normalizeFullwidthAscii (concat (map spelling
     [Wide (CHR ''<''), AsIs (CHR ''s''), Percent ''efBD83'' (CHR ''c'')])) = ''<sc''"
  using fullwidth_folded [of "[Wide (CHR ''<''), AsIs (CHR ''s''), Percent ''efBD83'' (CHR ''c'')]"]
  by (simp add: printable_def wide_bytes_def hexNibble_def)

text \<open>
  The result holds no raw fullwidth sequence at any position, is not
  longer than the input, and the fast path for short and plain ASCII texts gives what the loop
  would give.
\<close>

theorem fullwidth_gone:
  "raw_fold (drop k (normalizeFullwidthAscii s)) = None \<and>
   length (normalizeFullwidthAscii s) \<le> length s \<and>
   normalizeFullwidthAscii s = fst (fold_loop s)"
  using normalize_drop length_normalize normalize_eq by blast

text \<open>
  One pass is not a closure: a fullwidth percent sign folds to a percent sign that completes an
  encoded sequence. And a text is not folded piecewise: a sequence cut by a chunk border stays.
\<close>

lemma fullwidth_not_idempotent:
  "normalizeFullwidthAscii (map char_of [0xEF, 0xBC, 0x85 :: nat] @ ''EF%BC%9C'') = ''%EF%BC%9C''"
  "normalizeFullwidthAscii ''%EF%BC%9C'' = ''<''"
  by code_simp+

lemma fullwidth_not_piecewise:
  "normalizeFullwidthAscii (map char_of [0xEF :: nat]) @ normalizeFullwidthAscii (map char_of [0xBC, 0x9C :: nat])
     = map char_of [0xEF, 0xBC, 0x9C :: nat]"
  "normalizeFullwidthAscii (map char_of [0xEF, 0xBC, 0x9C :: nat]) = ''<''"
  by code_simp+

end
