(* ===== verification/Filter_State.thy ===== *)
theory Filter_State
  imports Metrics Telemetry Http_Text Log_Lines Fullwidth
begin

text \<open>
  The state of a stream (class \<^verbatim>\<open>ModSecContext\<close> in \<^verbatim>\<open>src/src/modsecurity_proxy_wasm.cc\<close>) and
  the operations its callbacks share: recording matches, the export of match data, structured
  log events, interventions and block replies.

  libModSecurity is not part of the repository: a transaction is of an arbitrary type, and the
  record \<open>engine\<close> has the calls the filter makes. A call returns the messages it passes to the
  log callback (\<open>None\<close> for a null message) with the next state of the transaction.
\<close>

section \<open>The engine and the environment of a stream\<close>

record intervention =
  iv_status :: int
  iv_url :: "string option"
  iv_log :: "string option"

text \<open>
  \<open>eng_body_error\<close> has the texts of the four anchored variables \<^verbatim>\<open>m_variableReqbodyError\<close>,
  \<^verbatim>\<open>m_variableReqbodyProcessorError\<close>, \<^verbatim>\<open>m_variableReqbodyErrorMsg\<close> and
  \<^verbatim>\<open>m_variableReqbodyProcessorErrorMsg\<close>.
\<close>

record 'e engine =
  eng_new :: "string \<Rightarrow> 'e"
  eng_call :: "engine_call \<Rightarrow> 'e \<Rightarrow> rule_message option list \<times> 'e"
  eng_messages :: "'e \<Rightarrow> rule_message list"
  eng_intervention :: "'e \<Rightarrow> intervention option \<times> 'e"
  eng_body_error :: "'e \<Rightarrow> string option \<times> string option \<times> string option \<times> string option"

text \<open>The root context as a stream sees it: its options, and whether the rules are loaded.\<close>

record 'e env =
  e_host :: host
  e_engine :: "'e engine"
  e_options :: WafPluginOptions
  e_id :: nat
  e_ready :: bool

section \<open>The state of a stream\<close>

record ExportMatch =
  em_event :: string
  em_rule_id :: int
  em_phase :: string
  em_severity :: int
  em_disruptive :: bool
  em_msg :: string
  em_data :: string

text \<open>
  The global pointer \<^verbatim>\<open>g_active_modsec_context\<close> as a stream sees it: the stream itself,
  another one, or null.
\<close>

datatype active_context = This | Other | Nobody

text \<open>The members of the class, the metrics of the root context, the active stream, and the effects so far.\<close>

record 'e stream =
  transaction :: "'e option"
  request_body_received :: nat
  request_body_processed :: bool
  response_body_received :: nat
  response_body_processed :: bool
  response_body_interrupted :: bool
  logging_phase_done :: bool
  interrupted :: bool
  last_disruptive_rule_id :: int
  rules_messages_seen :: nat
  request_id :: string
  req_method :: string
  req_path :: string
  client_ip :: string
  http_version_token :: string
  tx_action :: string
  last_phase :: string
  export_annotated :: bool
  export_matches :: "ExportMatch list"
  active :: active_context
  met :: ModSecMetrics
  tr :: trace

definition new_stream :: "ModSecMetrics \<Rightarrow> trace \<Rightarrow> 'e stream" where
  "new_stream m t = \<lparr>transaction = None, request_body_received = 0, request_body_processed = False,
     response_body_received = 0, response_body_processed = False, response_body_interrupted = False,
     logging_phase_done = False, interrupted = False, last_disruptive_rule_id = 0,
     rules_messages_seen = 0, request_id = [], req_method = [], req_path = [], client_ip = [],
     http_version_token = ''1.1'', tx_action = ''pass'', last_phase = [], export_annotated = False,
     export_matches = [], active = Nobody, met = m, tr = t\<rparr>"

definition onCreate :: "'e stream \<Rightarrow> 'e stream" where
  "onCreate s = s\<lparr>request_body_received := 0, request_body_processed := False,
     response_body_received := 0, response_body_processed := False, response_body_interrupted := False,
     interrupted := False, last_disruptive_rule_id := 0, rules_messages_seen := 0, request_id := [],
     req_method := [], req_path := [], client_ip := [], http_version_token := ''1.1'',
     tx_action := ''pass'', last_phase := [], export_annotated := False, export_matches := []\<rparr>"

definition activateContext :: "'e stream \<Rightarrow> 'e stream" where
  "activateContext s = s\<lparr>active := This\<rparr>"

definition emit :: "effect \<Rightarrow> 'e stream \<Rightarrow> 'e stream" where
  "emit e s = s\<lparr>tr := tr s @ [e]\<rparr>"

definition count :: "(metric_state \<Rightarrow> metric_state) \<Rightarrow> 'e stream \<Rightarrow> 'e stream" where
  "count f s = (case f (met s, tr s) of (m, t) \<Rightarrow> s\<lparr>met := m, tr := t\<rparr>)"

definition log_event :: "(trace \<Rightarrow> trace) \<Rightarrow> 'e stream \<Rightarrow> 'e stream" where
  "log_event f s = s\<lparr>tr := f (tr s)\<rparr>"

section \<open>Structured log events\<close>

definition identity_members :: "(string \<times> string) list \<Rightarrow> string" where
  "identity_members ls = concat (map (\<lambda>(k, v).
     if k = ''waf_namespace'' \<or> k = ''waf_name'' \<or> k = ''engine''
     then '','' @ [DQUOTE] @ jsonEscape k @ [DQUOTE] @ '':'' @ [DQUOTE] @ jsonEscape v @ [DQUOTE] else []) ls)"

definition structured_line :: "'e env \<Rightarrow> string \<Rightarrow> int \<Rightarrow> int \<Rightarrow> string option \<Rightarrow> int \<Rightarrow> bool \<Rightarrow> string \<Rightarrow>
    string \<Rightarrow> string \<Rightarrow> string \<Rightarrow> 'e stream \<Rightarrow> string" where
  "structured_line env event rule_id phase phase_name severity disruptive msg tags_csv data match s =
     ''{'' @ quoted ''component'' @ '':'' @ quoted ''modsecurity-proxy-wasm'' @ '','' @
     raw_member ''event'' (quoted event) @ '','' @ raw_member ''engine'' (quoted ''modsecurity'') @
     opt_member ''config_id'' (config_id (e_options env)) @
     opt_member ''mode'' (mode (e_options env)) @
     identity_members (labels (metrics (e_options env))) @
     opt_member ''request_id'' (request_id s) @
     opt_member ''method'' (req_method s) @
     opt_member ''path'' (take 256 (req_path s)) @
     opt_member ''client_ip'' (client_ip s) @
     (if 0 < rule_id then '','' @ raw_member ''id'' (int_to_string rule_id) @ '','' @
        raw_member ''rule_id'' (int_to_string rule_id) else []) @
     (if 0 \<le> phase then '','' @ raw_member ''phase'' (int_to_string phase) else []) @
     (case phase_name of None \<Rightarrow> [] | Some p \<Rightarrow> opt_member ''phase_name'' p) @
     (if 0 \<le> severity then '','' @ raw_member ''severity'' (int_to_string severity) else []) @
     '','' @ raw_member ''disruptive'' (bool_text disruptive) @
     opt_member ''msg'' (take 256 msg) @
     opt_member ''data'' (take 180 data) @
     opt_member ''match'' (take 180 match) @
     opt_member ''tags'' (take 256 tags_csv) @ ''}'' @
     classic_tail rule_id msg"

definition logStructuredEvent :: "'e env \<Rightarrow> string \<Rightarrow> int \<Rightarrow> int \<Rightarrow> string option \<Rightarrow> int \<Rightarrow> bool \<Rightarrow> string \<Rightarrow>
    string \<Rightarrow> string \<Rightarrow> string \<Rightarrow> 'e stream \<Rightarrow> 'e stream" where
  "logStructuredEvent env event rule_id phase phase_name severity disruptive msg tags_csv data match s =
     emit (LogWarn (structured_line env event rule_id phase phase_name severity disruptive msg tags_csv
       data match s)) s"

section \<open>Export of matches\<close>

definition kCap :: nat where "kCap = 16"

definition stashExportMatch :: "string \<Rightarrow> int \<Rightarrow> string option \<Rightarrow> int \<Rightarrow> bool \<Rightarrow> string \<Rightarrow> string \<Rightarrow>
    'e stream \<Rightarrow> 'e stream" where
  "stashExportMatch event rule_id phase severity disruptive msg data s0 =
     (let s = (case phase of None \<Rightarrow> s0 | Some p \<Rightarrow> s0\<lparr>last_phase := p\<rparr>);
          m = \<lparr>em_event = event, em_rule_id = rule_id,
                em_phase = (case phase of None \<Rightarrow> [] | Some p \<Rightarrow> p), em_severity = severity,
                em_disruptive = disruptive, em_msg = take 256 msg, em_data = take 180 data\<rparr>
      in if length (export_matches s) < kCap then s\<lparr>export_matches := export_matches s @ [m]\<rparr>
         else if disruptive \<and> last_disruptive_rule_id s = rule_id
         then s\<lparr>export_matches := butlast (export_matches s) @ [m]\<rparr>
         else s)"

definition match_text :: "WafTelemetryOptions \<Rightarrow> ExportMatch \<Rightarrow> string" where
  "match_text tel m =
     ''{'' @ raw_member ''event''
        (quoted (if em_event m = ''tx_interrupt'' then ''waf.tx_interrupt'' else ''waf.rule_match'')) @
     (if 0 < em_rule_id m then '','' @ raw_member ''rule_id'' (int_to_string (em_rule_id m)) else []) @
     opt_member ''phase'' (em_phase m) @
     (if 0 \<le> em_severity m then '','' @ raw_member ''severity'' (int_to_string (em_severity m)) else []) @
     '','' @ raw_member ''disruptive'' (bool_text (em_disruptive m)) @
     opt_member ''msg'' (em_msg m) @
     (if include_match_data tel \<and> em_data m \<noteq> [] \<and> \<not> wafTelemetryLooksSecret (em_data m)
      then '','' @ str_member ''data'' (em_data m) else []) @ ''}''"

fun match_list :: "WafTelemetryOptions \<Rightarrow> bool \<Rightarrow> ExportMatch list \<Rightarrow> string" where
  "match_list tel first [] = []"
| "match_list tel first (m # ms) = (if first then [] else '','') @ match_text tel m @ match_list tel False ms"

definition export_text :: "'e env \<Rightarrow> 'e stream \<Rightarrow> string" where
  "export_text env s =
     (let tel = telemetry (e_options env) in
      ''{'' @ raw_member ''interrupted'' (bool_text (interrupted s)) @ '','' @
      str_member ''action'' (tx_action s) @
      opt_member ''phase'' (last_phase s) @
      opt_member ''config_id'' (config_id (e_options env)) @
      identity_members (labels (metrics (e_options env))) @
      (if \<not> redact tel \<and> client_ip s \<noteq> [] then '','' @ str_member ''client.address'' (client_ip s) else []) @
      '','' @ quoted ''matches'' @ '':['' @ match_list tel True (export_matches s) @ '']}'')"

definition maybeAnnotateExport :: "'e env \<Rightarrow> 'e stream \<Rightarrow> 'e stream" where
  "maybeAnnotateExport env s =
     (let tel = telemetry (e_options env) in
      if tel_mode tel \<noteq> ''Managed'' \<or> \<not> traces_enabled tel then s
      else if \<not> (export_matches s \<noteq> [] \<or> interrupted s) then s
      else if \<not> wafTelemetrySampleAt (if interrupted s then sample_disruptive tel else sample_rate tel)
             (nat_to_string (e_id env)) then s
      else
        (let rollup = export_text env s;
             st = set_filter_state (e_host env) (tr s) ''kubewaf.event'' rollup;
             s1 = emit (SetFilterState ''kubewaf.event'' rollup) s;
             md_st = set_filter_state (e_host env) (tr s1) ''kubewaf.export'' ''1'';
             s2 = emit (SetFilterState ''kubewaf.export'' ''1'') s1
         in if st \<or> md_st then s2\<lparr>export_annotated := True\<rparr> else s2))"

section \<open>Recording matches\<close>

fun tags_csv_loop :: "string \<Rightarrow> string list \<Rightarrow> string" where
  "tags_csv_loop csv [] = csv"
| "tags_csv_loop csv (t # ts) =
     (let csv' = (if csv \<noteq> [] then csv @ '','' else csv) @ t
      in if 200 < length csv' then csv' else tags_csv_loop csv' ts)"

definition noteDisruptiveRule :: "int \<Rightarrow> 'e stream \<Rightarrow> 'e stream" where
  "noteDisruptiveRule rule_id s = s\<lparr>last_disruptive_rule_id := rule_id\<rparr>"

definition catalogPhaseName :: "int \<Rightarrow> string" where
  "catalogPhaseName rule_phase =
     (if rule_phase = 0 then ''http_request_headers''
      else if rule_phase = 1 then ''http_request_body''
      else if rule_phase = 2 then ''http_response_headers''
      else if rule_phase = 3 then ''http_response_body''
      else if rule_phase = 4 then ''http_logging''
      else ''unknown'')"

definition recordRuleMatch :: "'e env \<Rightarrow> rule_message \<Rightarrow> 'e stream \<Rightarrow> 'e stream" where
  "recordRuleMatch env rm s =
     (let s1 = (if m_isDisruptive rm then noteDisruptiveRule (m_ruleId rm) s else s);
          s2 = count (countRuleMatch (e_host env) (m_phase rm) (m_severity rm) (m_isDisruptive rm)
                 (m_ruleId rm) (m_tags rm)) s1;
          s3 = logStructuredEvent env ''rule_match'' (m_ruleId rm) (m_phase rm) None (m_severity rm)
                 (m_isDisruptive rm) (m_message rm) (tags_csv_loop [] (m_tags rm)) (m_data rm) (m_match rm) s2
      in stashExportMatch ''rule_match'' (m_ruleId rm) (Some (catalogPhaseName (m_phase rm)))
           (m_severity rm) (m_isDisruptive rm) (m_message rm) (m_data rm) s3)"

text \<open>
  The match of a call is recorded in the active stream, whichever that is: when it is another
  one, the match goes there (\<open>ForeignMatch\<close>).
\<close>

definition log_cb :: "'e env \<Rightarrow> rule_message option \<Rightarrow> 'e stream \<Rightarrow> 'e stream" where
  "log_cb env reported s =
     (case reported of None \<Rightarrow> log_event (logJson False ''log_cb_null'' []) s
      | Some rm \<Rightarrow>
        (case active s of This \<Rightarrow> recordRuleMatch env rm s
         | Other \<Rightarrow> emit (ForeignMatch rm) s
         | Nobody \<Rightarrow> log_event (logRuleMatchJson rm) s))"

section \<open>Calls of the engine\<close>

text \<open>The engine's calls of the log callback do not touch the transaction: they follow the call.\<close>

definition engine_op :: "'e env \<Rightarrow> engine_call \<Rightarrow> 'e stream \<Rightarrow> 'e stream" where
  "engine_op env c s =
     (case transaction s of None \<Rightarrow> s
      | Some e \<Rightarrow>
        (case eng_call (e_engine env) c e of (messages, e') \<Rightarrow>
           fold (log_cb env) messages (emit (EngineCall c) s\<lparr>transaction := Some e'\<rparr>)))"

definition flushNewRuleMessages :: "'e env \<Rightarrow> 'e stream \<Rightarrow> 'e stream" where
  "flushNewRuleMessages env s =
     (case transaction s of None \<Rightarrow> s
      | Some e \<Rightarrow>
        (let msgs = eng_messages (e_engine env) e;
             s1 = fold (recordRuleMatch env) (filter m_isDisruptive (drop (rules_messages_seen s) msgs)) s
         in s1\<lparr>rules_messages_seen := length msgs\<rparr>))"

definition logRequestBodyProcessorErrors :: "'e env \<Rightarrow> 'e stream \<Rightarrow> 'e stream" where
  "logRequestBodyProcessorErrors env s =
     (case transaction s of None \<Rightarrow> s
      | Some e \<Rightarrow>
        (case eng_body_error (e_engine env) e of (err_flag, proc_flag, err_msg, proc_msg) \<Rightarrow>
           if \<not> (err_flag = Some ''1'' \<or> proc_flag = Some ''1'') then s
           else (let msg = (if err_msg = None \<or> err_msg = Some [] then proc_msg else err_msg) in
             case msg of None \<Rightarrow> s
             | Some t \<Rightarrow>
                 (if t = [] then s
                  else log_event (logJson False ''reqbody_error'' (str_member ''msg'' (take 256 t)))
                         (emit (LogWarn t) s)))))"

section \<open>Interventions\<close>

definition note_intervention :: "'e env \<Rightarrow> string \<Rightarrow> intervention \<Rightarrow> 'e stream \<Rightarrow> int \<times> 'e stream" where
  "note_intervention env phase iv s =
     (let s1 = s\<lparr>interrupted := True\<rparr>;
          s2 = count (countTxInterruption (e_host env) phase (last_disruptive_rule_id s1)) s1;
          intervention_msg = (case iv_log iv of None \<Rightarrow> [] | Some l \<Rightarrow> l);
          redirect_url = (case iv_url iv of None \<Rightarrow> [] | Some u \<Rightarrow> u);
          s3 = s2\<lparr>tx_action := wafTelemetryAction True (redirect_url \<noteq> []) (iv_status iv) intervention_msg,
                  last_phase := phase\<rparr>;
          s4 = stashExportMatch ''tx_interrupt'' (last_disruptive_rule_id s3) (Some phase) (- 1) True
                 intervention_msg [] s3;
          s5 = maybeAnnotateExport env s4;
          blk = block (e_options env);
          st = (if 100 \<le> status blk \<and> status blk \<le> 599 then status blk else iv_status iv)
      in (st, logStructuredEvent env ''tx_interrupt'' (last_disruptive_rule_id s5) (- 1) (Some phase)
            (- 1) True intervention_msg [] [] [] s5))"

definition processIntervention :: "'e env \<Rightarrow> string \<Rightarrow> 'e stream \<Rightarrow> int \<times> 'e stream" where
  "processIntervention env phase s0 =
     (let s = flushNewRuleMessages env s0 in
      case transaction s of None \<Rightarrow> (0, s)
      | Some e \<Rightarrow>
        (case eng_intervention (e_engine env) e of (result, e') \<Rightarrow>
          (let s1 = emit (EngineCall Intervention) s\<lparr>transaction := Some e'\<rparr> in
           case result of None \<Rightarrow> (0, s1) | Some iv \<Rightarrow> note_intervention env phase iv s1)))"

section \<open>Block replies\<close>

definition block_headers :: "WafBlockOptions \<Rightarrow> 'e stream \<Rightarrow> (string \<times> string) list" where
  "block_headers blk s =
     (if blocked_header blk \<noteq> [] then [(blocked_header blk, ''1'')] else []) @
     (if add_rule_id_header blk \<and> 0 < last_disruptive_rule_id s \<and> rule_id_header blk \<noteq> []
      then [(rule_id_header blk, int_to_string (last_disruptive_rule_id s))] else []) @
     (if add_request_id_header blk \<and> request_id s \<noteq> [] \<and> request_id_header blk \<noteq> []
      then [(request_id_header blk, request_id s)] else [])"

definition sendBlockLocalResponse :: "'e env \<Rightarrow> int \<Rightarrow> 'e stream \<Rightarrow> 'e stream" where
  "sendBlockLocalResponse env status0 s =
     (let st = (if status0 < 100 \<or> 599 < status0 then 403 else status0);
          blk = block (e_options env);
          details = (if message blk = [] then ''Forbidden'' else message blk)
      in emit (SendLocalResponse (nat st) details [] (block_headers blk s)) s)"

end
