(* ===== verification/Filter_Stream.thy ===== *)
theory Filter_Stream
  imports Filter_State
begin

text \<open>
  The callbacks of a stream (class \<^verbatim>\<open>ModSecContext\<close> in
  \<^verbatim>\<open>src/src/modsecurity_proxy_wasm.cc\<close>), from the request headers to the deletion. What the
  callbacks read from the host is an argument.
\<close>

section \<open>Results and inputs\<close>

datatype filter_status = Continue | StopIteration | StopIterationAndBuffer | StopIterationNoBuffer

text \<open>
  The properties (\<^verbatim>\<open>getValue\<close>) and headers (\<^verbatim>\<open>getRequestHeader\<close>) of a request; \<open>None\<close>
  where the host does not have them.
\<close>

record request_input =
  source_address :: "string option"
  source_port :: "nat option"
  destination_address :: "string option"
  destination_port :: "nat option"
  path_header :: "string option"
  path_property :: "string option"
  request_path :: "string option"
  request_url_path :: "string option"
  method_header :: "string option"
  method_property :: "string option"
  x_request_id :: "string option"
  x_envoy_request_id :: "string option"
  id_property :: "string option"
  request_protocol :: "string option"
  header_pairs :: "(string \<times> string) list option"
  authority_header :: "string option"
  authority_property :: "string option"

text \<open>A body buffer: \<open>get start len\<close> is \<^verbatim>\<open>getBufferBytes\<close>, \<open>None\<close> when it returns null.\<close>

type_synonym body_buffer = "nat \<Rightarrow> nat \<Rightarrow> string option"

text \<open>A variable that \<^verbatim>\<open>getValue\<close> assigns only when it succeeds.\<close>

definition assign :: "'a \<Rightarrow> 'a option \<Rightarrow> 'a" where
  "assign old new = (case new of None \<Rightarrow> old | Some v \<Rightarrow> v)"

section \<open>Shared steps\<close>

text \<open>
  \<^verbatim>\<open>if (int st = processIntervention(phase); st != 0) return sendBlock...(st);\<close> followed by the
  rest of the callback.
\<close>

definition check :: "'e env \<Rightarrow> string \<Rightarrow> filter_status \<Rightarrow> 'e stream \<Rightarrow>
    ('e stream \<Rightarrow> filter_status \<times> 'e stream) \<Rightarrow> filter_status \<times> 'e stream" where
  "check env phase stop s rest =
     (case processIntervention env phase s of (st, s') \<Rightarrow>
        if st \<noteq> 0 then (stop, sendBlockLocalResponse env st s') else rest s')"

definition kRequestHeaders :: string where "kRequestHeaders = ''http_request_headers''"
definition kRequestBody :: string where "kRequestBody = ''http_request_body''"
definition kResponseHeaders :: string where "kResponseHeaders = ''http_response_headers''"
definition kResponseBody :: string where "kResponseBody = ''http_response_body''"

definition fold_fullwidth :: "'e env \<Rightarrow> string \<Rightarrow> string" where
  "fold_fullwidth env t =
     (if fullwidth_normalize (e_options env) then normalizeFullwidthAscii t else t)"

text \<open>Phase 2: process, log the processor's errors, set the flag.\<close>

definition request_body_phase :: "'e env \<Rightarrow> 'e stream \<Rightarrow> 'e stream" where
  "request_body_phase env s =
     (logRequestBodyProcessorErrors env (engine_op env ProcessRequestBody s))\<lparr>request_body_processed := True\<rparr>"

text \<open>The part of a request body that was not passed on yet.\<close>

definition append_request :: "'e env \<Rightarrow> body_buffer \<Rightarrow> nat \<Rightarrow> 'e stream \<Rightarrow> 'e stream" where
  "append_request env get buffer_size s =
     (if buffer_size \<le> request_body_received s then s
      else (case get (request_body_received s) (buffer_size - request_body_received s) of
          Some body \<Rightarrow>
            (if body \<noteq> [] then
               (let s1 = engine_op env (AppendRequestBody (fold_fullwidth env body)) s
                in s1\<lparr>request_body_received := request_body_received s1 + length body\<rparr>)
             else s\<lparr>request_body_received := buffer_size\<rparr>)
        | None \<Rightarrow> s\<lparr>request_body_received := buffer_size\<rparr>))"

text \<open>The size of the buffer (\<^verbatim>\<open>getBufferStatus\<close>) may not be available.\<close>

definition appendBufferedRequestBody :: "'e env \<Rightarrow> nat option \<Rightarrow> body_buffer \<Rightarrow> 'e stream \<Rightarrow> 'e stream" where
  "appendBufferedRequestBody env buffer_status get s =
     (case buffer_status of None \<Rightarrow> s | Some n \<Rightarrow> append_request env get n s)"

definition appendBufferedResponseBody :: "'e env \<Rightarrow> nat option \<Rightarrow> body_buffer \<Rightarrow> 'e stream \<Rightarrow> nat \<times> 'e stream" where
  "appendBufferedResponseBody env buffer_status get s =
     (case buffer_status of None \<Rightarrow> (0, s)
      | Some n \<Rightarrow>
        (if n \<le> response_body_received s then (n, s)
         else (case get (response_body_received s) (n - response_body_received s) of
             Some body \<Rightarrow>
               (if body \<noteq> [] then
                  (let s1 = engine_op env (AppendResponseBody body) s
                   in (n, s1\<lparr>response_body_received := response_body_received s1 + length body\<rparr>))
                else (n, s\<lparr>response_body_received := n\<rparr>))
           | None \<Rightarrow> (n, s\<lparr>response_body_received := n\<rparr>))))"

definition finalizeResponseBodyPhase :: "'e env \<Rightarrow> 'e stream \<Rightarrow> 'e stream" where
  "finalizeResponseBodyPhase env s =
     (if transaction s = None \<or> response_body_processed s then s
      else (engine_op env ProcessResponseBody s)\<lparr>response_body_processed := True, response_body_received := 0\<rparr>)"

definition runLoggingPhaseIfNeeded :: "'e env \<Rightarrow> 'e stream \<Rightarrow> 'e stream" where
  "runLoggingPhaseIfNeeded env s =
     (if transaction s = None \<or> logging_phase_done s then s
      else
        (let s1 = activateContext s;
             seen_before = rules_messages_seen s1;
             s2 = engine_op env ProcessLogging s1;
             msgs = (case transaction s2 of None \<Rightarrow> [] | Some e \<Rightarrow> eng_messages (e_engine env) e);
             s3 = fold (recordRuleMatch env) (drop seen_before msgs) s2
         in s3\<lparr>rules_messages_seen := length msgs, logging_phase_done := True\<rparr>))"

definition kBlocked :: string where "kBlocked = ''Forbidden'' @ [LF]"

definition sanitizeInterruptedResponseBody :: "'e env \<Rightarrow> nat \<Rightarrow> 'e stream \<Rightarrow> filter_status \<times> 'e stream" where
  "sanitizeInterruptedResponseBody env body_buffer_length s =
     (let s1 = (if \<not> response_body_interrupted s then count (countResponseBodySanitized (e_host env)) s else s);
          s2 = (if 0 < body_buffer_length then emit (SetResponseBuffer body_buffer_length kBlocked) s1 else s1);
          s3 = emit (ReplaceResponseHeader ''content-length'' (nat_to_string (length kBlocked))) s2
      in (Continue, s3\<lparr>response_body_interrupted := True\<rparr>))"

section \<open>Request headers\<close>

definition input_path :: "request_input \<Rightarrow> string" where
  "input_path i =
     (let path = (case path_header i of Some p \<Rightarrow> p
        | None \<Rightarrow>
          (let p1 = assign ''/'' (path_property i) in
           if path_property i = None \<or> p1 = [] then
             (let p2 = assign p1 (request_path i) in
              if request_path i = None \<or> p2 = [] then assign p2 (request_url_path i) else p2)
           else p1))
      in if path = [] then ''/'' else path)"

definition input_method :: "request_input \<Rightarrow> string" where
  "input_method i = (case method_header i of Some m \<Rightarrow> m | None \<Rightarrow> assign ''GET'' (method_property i))"

text \<open>\<^verbatim>\<open>request_id_\<close> keeps its value when the property is absent; an empty one becomes the id of the transaction.\<close>

definition input_request_id :: "request_input \<Rightarrow> string \<Rightarrow> string \<Rightarrow> string" where
  "input_request_id i old tx_id =
     (let r = (case x_request_id i of Some r \<Rightarrow> r
        | None \<Rightarrow> (case x_envoy_request_id i of Some r \<Rightarrow> r | None \<Rightarrow> assign old (id_property i)))
      in if r = [] then tx_id else r)"

text \<open>The loop over the request headers: stream, body size, host seen, chunked.\<close>

fun request_headers_loop :: "'e env \<Rightarrow> (string \<times> string) list \<Rightarrow> 'e stream \<times> int \<times> bool \<times> bool \<Rightarrow>
    'e stream \<times> int \<times> bool \<times> bool" where
  "request_headers_loop env [] acc = acc"
| "request_headers_loop env ((name, value0) # hs) (s, body_size, has_host, chunked) =
     (let value = fold_fullwidth env value0 in
      request_headers_loop env hs
        (engine_op env (AddRequestHeader name value) s,
         if headerNameEquals name ''content-length'' then parseContentLength value else body_size,
         has_host \<or> name = ''host'' \<or> name = ''Host'',
         chunked \<or> (headerNameEquals name ''transfer-encoding'' \<and> isChunkedTransferEncoding value)))"

definition host_of_authority :: "string \<Rightarrow> string" where
  "host_of_authority authority =
     (if hd authority = CHR ''['' then
        (case find_char authority (CHR '']'') 0 of Some end_ \<Rightarrow> substr 1 (end_ - 1) authority | None \<Rightarrow> authority)
      else (case rfind_char authority (CHR '':'') of
          Some colon \<Rightarrow> (if find_char authority (CHR '':'') 0 = Some colon then take colon authority else authority)
        | None \<Rightarrow> authority))"

definition add_host_header :: "'e env \<Rightarrow> request_input \<Rightarrow> 'e stream \<Rightarrow> 'e stream" where
  "add_host_header env i s =
     (let authority = (case authority_header i of Some a \<Rightarrow> a | None \<Rightarrow> assign [] (authority_property i))
      in if authority \<noteq> [] then engine_op env (AddRequestHeader ''Host'' (host_of_authority authority)) s else s)"

text \<open>The first part: the transaction and the facts about the request.\<close>

definition start_request :: "'e env \<Rightarrow> request_input \<Rightarrow> 'e stream \<Rightarrow> 'e stream" where
  "start_request env i s0 =
     (let tx_id = ''wasm-'' @ nat_to_string (e_id env);
          s1 = emit (EngineCall (NewTransaction tx_id)) (activateContext s0)
                 \<lparr>transaction := Some (eng_new (e_engine env) tx_id)\<rparr>;
          s2 = count (countTxTotal (e_host env)) s1
      in s2\<lparr>client_ip := assign ''127.0.0.1'' (source_address i),
            req_path := fold_fullwidth env (input_path i),
            req_method := input_method i,
            request_id := input_request_id i (request_id s2) tx_id\<rparr>)"

definition connection_call :: "request_input \<Rightarrow> engine_call" where
  "connection_call i = ProcessConnection
     (c_str (assign ''127.0.0.1'' (source_address i))) (to_int32 (assign 0 (source_port i)))
     (c_str (assign ''127.0.0.1'' (destination_address i))) (to_int32 (assign 0 (destination_port i)))"

definition onRequestHeaders :: "'e env \<Rightarrow> request_input \<Rightarrow> bool \<Rightarrow> 'e stream \<Rightarrow> filter_status \<times> 'e stream" where
  "onRequestHeaders env i end_of_stream s0 =
     (if \<not> e_ready env then (Continue, s0)
      else
       (let s1 = start_request env i s0 in
        check env kRequestHeaders StopIteration (engine_op env (connection_call i) s1) (\<lambda>s2.
        let s3 = s2\<lparr>http_version_token := modsecHttpVersionToken (assign [] (request_protocol i))\<rparr> in
        check env kRequestHeaders StopIteration
          (engine_op env (ProcessURI (c_str (req_path s3)) (c_str (req_method s3)) (c_str (http_version_token s3))) s3) (\<lambda>s4.
        case request_headers_loop env (assign [] (header_pairs i)) (s4, 0, False, False) of
          (s5, body_size, has_host, chunked) \<Rightarrow>
        let s6 = (if \<not> has_host then add_host_header env i s5 else s5) in
        check env kRequestHeaders StopIteration s6 (\<lambda>s7.
        check env kRequestHeaders StopIteration (engine_op env ProcessRequestHeaders s7) (\<lambda>s8.
        let has_known_body = (0 < body_size \<or> chunked);
            may_receive_body = (methodMayHaveBody (input_method i) \<and> \<not> end_of_stream)
        in if \<not> (has_known_body \<or> may_receive_body) then
             check env kRequestBody StopIteration (request_body_phase env s8) (\<lambda>s9.
               (Continue, runLoggingPhaseIfNeeded env s9))
           else (Continue, s8)))))))"

section \<open>Request body and trailers\<close>

text \<open>The end of the request body, common to both callbacks.\<close>

definition end_request_body :: "'e env \<Rightarrow> filter_status \<Rightarrow> 'e stream \<Rightarrow> filter_status \<times> 'e stream" where
  "end_request_body env stop s =
     check env kRequestBody stop ((request_body_phase env s)\<lparr>request_body_received := 0\<rparr>)
       (\<lambda>s1. (Continue, runLoggingPhaseIfNeeded env s1))"

definition onRequestTrailers :: "'e env \<Rightarrow> nat option \<Rightarrow> body_buffer \<Rightarrow> 'e stream \<Rightarrow> filter_status \<times> 'e stream" where
  "onRequestTrailers env buffer_status get s0 =
     (if transaction s0 = None \<or> request_body_processed s0 then (Continue, s0)
      else end_request_body env StopIteration
             (appendBufferedRequestBody env buffer_status get (activateContext s0)))"

definition onRequestBody :: "'e env \<Rightarrow> body_buffer \<Rightarrow> nat \<Rightarrow> bool \<Rightarrow> 'e stream \<Rightarrow> filter_status \<times> 'e stream" where
  "onRequestBody env get body_buffer_length end_of_stream s0 =
     (if transaction s0 = None then (Continue, s0)
      else
        (let s1 = activateContext s0 in
         if request_body_processed s1 then (Continue, s1)
         else
           (let s2 = append_request env get body_buffer_length s1 in
            if \<not> end_of_stream then (StopIterationAndBuffer, s2)
            else end_request_body env StopIterationNoBuffer s2)))"

section \<open>Response headers\<close>

text \<open>The loop over the response headers: stream, body size, chunked, status code.\<close>

fun response_headers_loop :: "'e env \<Rightarrow> (string \<times> string) list \<Rightarrow> 'e stream \<times> int \<times> bool \<times> int \<Rightarrow>
    'e stream \<times> int \<times> bool \<times> int" where
  "response_headers_loop env [] acc = acc"
| "response_headers_loop env ((name, value) # hs) (s, body_size, chunked, status_code) =
     response_headers_loop env hs
       (engine_op env (AddResponseHeader name value) s,
        if headerNameEquals name ''content-length'' then parseContentLength value else body_size,
        chunked \<or> (headerNameEquals name ''transfer-encoding'' \<and> isChunkedTransferEncoding value),
        if name = '':status'' then assign status_code (strtol (c_str value)) else status_code)"

text \<open>What follows the request-body phase.\<close>

definition process_response_headers :: "'e env \<Rightarrow> (string \<times> string) list option \<Rightarrow> bool \<Rightarrow> 'e stream \<Rightarrow>
    filter_status \<times> 'e stream" where
  "process_response_headers env headers end_of_stream s2 =
     (case response_headers_loop env (assign [] headers) (s2, 0, False, 200) of
        (s3, body_size, chunked, status_code) \<Rightarrow>
      check env kResponseHeaders StopIteration
        (engine_op env (ProcessResponseHeaders status_code (modsecHttpProtocol (http_version_token s3))) s3) (\<lambda>s4.
      let has_known_body = (0 < body_size \<or> chunked);
          may_receive_body = (statusMayHaveBody status_code \<and> \<not> end_of_stream)
      in if \<not> (has_known_body \<or> may_receive_body) then
           check env kResponseBody StopIteration (engine_op env (AppendResponseBody [NUL]) s4) (\<lambda>s5.
           check env kResponseBody StopIteration (finalizeResponseBodyPhase env s5) (\<lambda>s6.
           (Continue, runLoggingPhaseIfNeeded env s6)))
         else (Continue, s4)))"

definition onResponseHeaders :: "'e env \<Rightarrow> (string \<times> string) list option \<Rightarrow> bool \<Rightarrow> 'e stream \<Rightarrow>
    filter_status \<times> 'e stream" where
  "onResponseHeaders env headers end_of_stream s0 =
     (if transaction s0 = None then (Continue, s0)
      else
       (let s1 = activateContext s0 in
        if \<not> request_body_processed s1
        then check env kRequestBody StopIteration (request_body_phase env s1)
               (process_response_headers env headers end_of_stream)
        else process_response_headers env headers end_of_stream s1))"

section \<open>Response body and trailers\<close>

definition onResponseTrailers :: "'e env \<Rightarrow> nat option \<Rightarrow> body_buffer \<Rightarrow> 'e stream \<Rightarrow> filter_status \<times> 'e stream" where
  "onResponseTrailers env buffer_status get s0 =
     (if transaction s0 = None \<or> response_body_processed s0 then (Continue, s0)
      else
       (let s1 = activateContext s0 in
        if response_body_interrupted s1 then
          (Continue, case buffer_status of None \<Rightarrow> s1 | Some n \<Rightarrow> snd (sanitizeInterruptedResponseBody env n s1))
        else
         (case appendBufferedResponseBody env buffer_status get s1 of (n, s2) \<Rightarrow>
          case processIntervention env kResponseBody s2 of (st, s3) \<Rightarrow>
          if st \<noteq> 0 then
            (Continue, snd (sanitizeInterruptedResponseBody env n (s3\<lparr>response_body_processed := True\<rparr>)))
          else
           (case processIntervention env kResponseBody (finalizeResponseBodyPhase env s3) of (st2, s4) \<Rightarrow>
            let s5 = (if st2 \<noteq> 0 then snd (sanitizeInterruptedResponseBody env n s4) else s4)
            in (Continue, runLoggingPhaseIfNeeded env s5)))))"

definition end_response_body :: "'e env \<Rightarrow> nat \<Rightarrow> 'e stream \<Rightarrow> filter_status \<times> 'e stream" where
  "end_response_body env body_buffer_length s =
     (case processIntervention env kResponseBody (finalizeResponseBodyPhase env s) of (st, s1) \<Rightarrow>
        if st \<noteq> 0 then sanitizeInterruptedResponseBody env body_buffer_length s1
        else (Continue, runLoggingPhaseIfNeeded env s1))"

definition onResponseBody :: "'e env \<Rightarrow> body_buffer \<Rightarrow> nat \<Rightarrow> bool \<Rightarrow> 'e stream \<Rightarrow> filter_status \<times> 'e stream" where
  "onResponseBody env get body_buffer_length end_of_stream s0 =
     (if transaction s0 = None then (Continue, s0)
      else
       (let s1 = activateContext s0;
            rest = (\<lambda>s. if \<not> end_of_stream then (StopIterationAndBuffer, s)
              else end_response_body env body_buffer_length s)
        in if response_body_interrupted s1 then sanitizeInterruptedResponseBody env body_buffer_length s1
           else if response_body_processed s1 then (Continue, s1)
           else if response_body_received s1 < body_buffer_length then
             (case get (response_body_received s1) (body_buffer_length - response_body_received s1) of
                Some body \<Rightarrow>
                  (if body \<noteq> [] then
                     (let s2 = engine_op env (AppendResponseBody body) s1;
                          s3 = s2\<lparr>response_body_received := response_body_received s2 + length body\<rparr>
                      in case processIntervention env kResponseBody s3 of (st, s4) \<Rightarrow>
                         if st \<noteq> 0 then
                           sanitizeInterruptedResponseBody env body_buffer_length
                             (s4\<lparr>response_body_processed := True\<rparr>)
                         else rest s4)
                   else rest (s1\<lparr>response_body_received := body_buffer_length\<rparr>))
              | None \<Rightarrow> rest (s1\<lparr>response_body_received := body_buffer_length\<rparr>))
           else rest s1))"

section \<open>The end of a stream\<close>

definition onLog :: "'e env \<Rightarrow> 'e stream \<Rightarrow> 'e stream" where
  "onLog env s =
     maybeAnnotateExport env
       (if transaction s \<noteq> None then runLoggingPhaseIfNeeded env (activateContext s) else s)"

definition onDelete :: "'e env \<Rightarrow> 'e stream \<Rightarrow> 'e stream" where
  "onDelete env s0 =
     (let s1 = (if transaction s0 \<noteq> None then
            (let a = activateContext s0;
                 b = (if \<not> request_body_processed a
                      then snd (processIntervention env kRequestBody (request_body_phase env a)) else a);
                 c = (if \<not> response_body_processed b
                      then snd (processIntervention env kResponseBody (finalizeResponseBodyPhase env b)) else b)
             in maybeAnnotateExport env (runLoggingPhaseIfNeeded env c))
          else s0);
          s2 = (if transaction s1 \<noteq> None \<and> \<not> interrupted s1
                then count (countTxAllowed (e_host env)) s1 else s1)
      in s2\<lparr>active := (if active s2 = This then Nobody else active s2), transaction := None\<rparr>)"

end
