(* ===== verification/Filter_Contracts.thy ===== *)
theory Filter_Contracts
  imports Filter_Stream Metric_Effects
begin

text \<open>
  Invariants of a stream, in layers. The locale \<open>stream_log\<close> has what an invariant needs to
  survive logging and metrics; \<open>stream_steps\<close> adds the engine's calls and the export, except
  the calls it watches; \<open>stream_replies\<close> adds the replies; in \<open>stream_calls\<close> no call is watched.
  The lemmas of \<open>stream_contract\<close>, which joins them, say that every callback, and then every run
  of the stream, keeps the invariant.
\<close>

section \<open>Runs of a stream\<close>

text \<open>The callbacks after the request headers, in any order the host may choose.\<close>

datatype callback =
    RequestBody body_buffer nat bool
  | RequestTrailers "nat option" body_buffer
  | ResponseHeaders "(string \<times> string) list option" bool
  | ResponseBody body_buffer nat bool
  | ResponseTrailers "nat option" body_buffer
  | Log
  | Delete

fun run_callback :: "'e env \<Rightarrow> callback \<Rightarrow> 'e stream \<Rightarrow> 'e stream" where
  "run_callback env (RequestBody get n eos) s = snd (onRequestBody env get n eos s)"
| "run_callback env (RequestTrailers n get) s = snd (onRequestTrailers env n get s)"
| "run_callback env (ResponseHeaders hs eos) s = snd (onResponseHeaders env hs eos s)"
| "run_callback env (ResponseBody get n eos) s = snd (onResponseBody env get n eos s)"
| "run_callback env (ResponseTrailers n get) s = snd (onResponseTrailers env n get s)"
| "run_callback env Log s = onLog env s"
| "run_callback env Delete s = onDelete env s"

text \<open>What a callback returns to the host.\<close>

fun callback_status :: "'e env \<Rightarrow> callback \<Rightarrow> 'e stream \<Rightarrow> filter_status option" where
  "callback_status env (RequestBody get n eos) s = Some (fst (onRequestBody env get n eos s))"
| "callback_status env (RequestTrailers n get) s = Some (fst (onRequestTrailers env n get s))"
| "callback_status env (ResponseHeaders hs eos) s = Some (fst (onResponseHeaders env hs eos s))"
| "callback_status env (ResponseBody get n eos) s = Some (fst (onResponseBody env get n eos s))"
| "callback_status env (ResponseTrailers n get) s = Some (fst (onResponseTrailers env n get s))"
| "callback_status env Log s = None"
| "callback_status env Delete s = None"

text \<open>
  The states a stream can reach. Streams are interleaved: between two callbacks of one, others
  change the metrics they share and become the active stream, and the answers of the host
  change. A callback itself is not interrupted.
\<close>

inductive reachable :: "'e env \<Rightarrow> 'e stream \<Rightarrow> bool" for env where
  created: "reachable env (snd (onRequestHeaders (env\<lparr>e_host := h\<rparr>) i eos
    ((onCreate (new_stream m []))\<lparr>active := a\<rparr>)))"
| called: "reachable env s \<Longrightarrow> reachable env (run_callback (env\<lparr>e_host := h\<rparr>) c s)"
| others: "reachable env s \<Longrightarrow> reachable env (s\<lparr>met := m, active := a\<rparr>)"

section \<open>What an invariant must be closed under\<close>

definition reply_details :: "WafBlockOptions \<Rightarrow> string" where
  "reply_details blk = (if message blk = [] then ''Forbidden'' else message blk)"

locale stream_log =
  fixes env :: "'e env"
    and allowed :: "effect \<Rightarrow> bool"
    and I :: "'e stream \<Rightarrow> bool"
  assumes emitted: "I s \<Longrightarrow> allowed e \<Longrightarrow> I (s\<lparr>tr := tr s @ [e]\<rparr>)"
    and frame: "I s \<Longrightarrow> tr s' = tr s \<Longrightarrow> export_matches s' = export_matches s \<Longrightarrow>
        response_body_interrupted s' = response_body_interrupted s \<Longrightarrow> active s' = active s \<Longrightarrow> I s'"
    and activated: "I s \<Longrightarrow> I (s\<lparr>active := This\<rparr>)"
    and foreign: "I s \<Longrightarrow> active s = Other \<Longrightarrow> allowed (ForeignMatch rm)"
    and stashed: "I s \<Longrightarrow> I (stashExportMatch event rule_id phase sev d msg data s)"
    and metric: "metric_effect e \<Longrightarrow> allowed e"
    and line: "one_line l \<Longrightarrow> allowed (LogWarn l)"
begin

lemma frame_iff: "tr s' = tr s \<Longrightarrow> export_matches s' = export_matches s \<Longrightarrow>
    response_body_interrupted s' = response_body_interrupted s \<Longrightarrow> active s' = active s \<Longrightarrow> I s' \<longleftrightarrow> I s"
  using frame by metis

lemma I_fields [simp]:
  "I (s\<lparr>transaction := a\<rparr>) = I s" "I (s\<lparr>request_body_received := n\<rparr>) = I s"
  "I (s\<lparr>request_body_processed := b\<rparr>) = I s" "I (s\<lparr>response_body_received := n\<rparr>) = I s"
  "I (s\<lparr>response_body_processed := b\<rparr>) = I s"
  "I (s\<lparr>logging_phase_done := b\<rparr>) = I s" "I (s\<lparr>interrupted := b\<rparr>) = I s"
  "I (s\<lparr>last_disruptive_rule_id := i\<rparr>) = I s" "I (s\<lparr>rules_messages_seen := n\<rparr>) = I s"
  "I (s\<lparr>request_id := t\<rparr>) = I s" "I (s\<lparr>req_method := t\<rparr>) = I s" "I (s\<lparr>req_path := t\<rparr>) = I s"
  "I (s\<lparr>client_ip := t\<rparr>) = I s" "I (s\<lparr>http_version_token := t\<rparr>) = I s"
  "I (s\<lparr>tx_action := t\<rparr>) = I s" "I (s\<lparr>last_phase := t\<rparr>) = I s"
  "I (s\<lparr>export_annotated := b\<rparr>) = I s" "I (s\<lparr>met := m\<rparr>) = I s"
  by (rule frame_iff; simp)+

lemma I_emit: "I s \<Longrightarrow> allowed e \<Longrightarrow> I (emit e s)"
  by (simp add: emit_def emitted)

lemma I_effects: "I s \<Longrightarrow> list_all allowed es \<Longrightarrow> I (s\<lparr>tr := tr s @ es\<rparr>)"
proof (induction es rule: rev_induct)
  case Nil
  then show ?case using frame [of s "s\<lparr>tr := tr s @ []\<rparr>"] by simp
next
  case (snoc e es)
  then have "I (s\<lparr>tr := tr s @ es\<rparr>)" "allowed e" by simp_all
  then show ?case using emitted by fastforce
qed

lemma I_count: "metric_op f \<Longrightarrow> I s \<Longrightarrow> I (count f s)"
proof -
  assume f: "metric_op f" and I: "I s"
  obtain es where es: "snd (f (met s, tr s)) = tr s @ es" "list_all metric_effect es"
    using metric_opD [OF f, of "(met s, tr s)"] by auto
  then have "list_all allowed es" by (simp add: list.pred_mono_strong metric)
  then have "I (s\<lparr>tr := tr s @ es\<rparr>)" by (rule I_effects [OF I])
  then have "I (s\<lparr>met := m, tr := tr s @ es\<rparr>)" for m
    by (rule frame) simp_all
  then show ?thesis
    unfolding count_def using es(1) by (simp add: prod.case_eq_if)
qed

lemma I_json: "one_line ev \<Longrightarrow> one_line mem \<Longrightarrow> I s \<Longrightarrow> I (log_event (logJson False ev mem) s)"
  by (simp add: log_event_def logJson_def Let_def emitted line)

lemma one_line_identity: "one_line (identity_members ls)"
  by (induction ls) (auto simp: identity_members_def)

lemma I_structured:
  "I s \<Longrightarrow> one_line ev \<Longrightarrow> I (logStructuredEvent env ev i ph pn sev d msg csv dat mat s)"
  unfolding logStructuredEvent_def
  by (intro I_emit line) (simp_all add: structured_line_def one_line_identity split: option.split)

lemma I_record: "I s \<Longrightarrow> I (recordRuleMatch env rm s)"
  unfolding recordRuleMatch_def Let_def
  by (intro stashed I_structured I_count metric_ops) (simp_all add: noteDisruptiveRule_def)

lemma I_fold: "(\<And>x s. I s \<Longrightarrow> I (f x s)) \<Longrightarrow> I s \<Longrightarrow> I (fold f xs s)"
  by (induction xs arbitrary: s) auto

lemma I_log_cb: "I s \<Longrightarrow> I (log_cb env m s)"
proof (cases m)
  case None
  assume "I s"
  then show ?thesis unfolding log_cb_def None by (simp add: I_json)
next
  case (Some rm)
  assume I: "I s"
  have "I (log_event (logRuleMatchJson rm) s)"
    by (simp add: log_event_def logRuleMatchJson_def Let_def emitted [OF I] line)
  with I show ?thesis
    by (simp add: log_cb_def Some I_record I_emit foreign split: active_context.split)
qed

end

text \<open>
  The calls an invariant may watch, so that it need not allow them: those that hand a part of a
  body to the engine, and the response headers.
\<close>

fun watchable :: "engine_call \<Rightarrow> bool" where
  "watchable (AppendRequestBody t) = True"
| "watchable (AppendResponseBody t) = True"
| "watchable (ProcessResponseHeaders i t) = True"
| "watchable _ = False"

locale stream_steps = stream_log +
  fixes watched :: "engine_call \<Rightarrow> bool"
  assumes watched_only: "watched c \<Longrightarrow> watchable c"
    and call: "\<not> watched c \<Longrightarrow> allowed (EngineCall c)"
    and body_error: "eng_body_error (e_engine env) x = (f, g, a, b) \<Longrightarrow> t = a \<or> t = b \<Longrightarrow> t = Some l \<Longrightarrow>
        allowed (LogWarn l)"
    and export: "allowed (SetFilterState k v)"
begin

lemma I_call: "\<not> watched c \<Longrightarrow> I s \<Longrightarrow> I (engine_op env c s)"
  by (auto simp: engine_op_def I_emit call I_fold I_log_cb split: option.split prod.split)

lemma not_watched: "\<not> watchable c \<Longrightarrow> \<not> watched c"
  using watched_only by blast

lemma I_engine: "\<not> watchable c \<Longrightarrow> I s \<Longrightarrow> I (engine_op env c s)"
  by (simp add: I_call not_watched)

lemma I_flush: "I s \<Longrightarrow> I (flushNewRuleMessages env s)"
  by (auto simp: flushNewRuleMessages_def Let_def I_fold I_record split: option.split)

lemma I_errors: "I s \<Longrightarrow> I (logRequestBodyProcessorErrors env s)"
proof (cases "transaction s")
  case (Some x)
  assume I: "I s"
  obtain f g a b where e: "eng_body_error (e_engine env) x = (f, g, a, b)" by (metis prod.collapse)
  have "I (log_event (logJson False ''reqbody_error'' (str_member ''msg'' (take 256 t))) (emit (LogWarn t) s))"
    if "u = a \<or> u = b" "u = Some t" for u t
    using I body_error [OF e that] by (intro I_json I_emit) simp_all
  with I show ?thesis
    by (auto simp: logRequestBodyProcessorErrors_def Some e Let_def split: option.split)
qed (simp add: logRequestBodyProcessorErrors_def)

lemma I_annotate: "I s \<Longrightarrow> I (maybeAnnotateExport env s)"
  by (simp add: maybeAnnotateExport_def Let_def I_emit export)

lemma I_note: "I s \<Longrightarrow> I (snd (note_intervention env ph iv s))"
  unfolding note_intervention_def Let_def snd_conv
  by (intro I_structured I_annotate stashed) (simp_all add: I_count metric_ops)

lemma I_intervention: "I s \<Longrightarrow> I (snd (processIntervention env ph s))"
  by (auto simp: processIntervention_def Let_def I_flush I_emit call not_watched I_note
      split: option.split prod.split)

lemma I_body_phase: "I s \<Longrightarrow> I (request_body_phase env s)"
  by (simp add: request_body_phase_def I_errors I_engine)

lemma I_append:
  "(\<And>t. \<not> watched (AppendRequestBody t)) \<Longrightarrow> I s \<Longrightarrow> I (append_request env get n s)"
  by (auto simp: append_request_def Let_def I_call split: option.split)

lemma I_append_response:
  "(\<And>t. \<not> watched (AppendResponseBody t)) \<Longrightarrow> I s \<Longrightarrow> I (snd (appendBufferedResponseBody env n get s))"
  by (auto simp: appendBufferedResponseBody_def Let_def I_call split: option.split)

lemma I_finalize: "I s \<Longrightarrow> I (finalizeResponseBodyPhase env s)"
  by (simp add: finalizeResponseBodyPhase_def I_engine)

lemma I_activate: "I s \<Longrightarrow> I (activateContext s)"
  by (simp add: activateContext_def activated)

lemma I_logging: "I s \<Longrightarrow> I (runLoggingPhaseIfNeeded env s)"
  by (simp add: runLoggingPhaseIfNeeded_def Let_def I_fold I_record I_engine I_activate)

lemma I_request_loop: "I (fst acc) \<Longrightarrow> I (fst (request_headers_loop env hs acc))"
  by (induction hs arbitrary: acc) (auto simp: Let_def I_engine split: prod.splits)

lemma I_response_loop: "I (fst acc) \<Longrightarrow> I (fst (response_headers_loop env hs acc))"
  by (induction hs arbitrary: acc) (auto simp: I_engine split: prod.splits)

lemma I_host: "I s \<Longrightarrow> I (add_host_header env i s)"
  by (simp add: add_host_header_def Let_def I_engine)

lemma I_start: "I s \<Longrightarrow> I (start_request env i s)"
  by (simp add: start_request_def Let_def I_emit call not_watched I_count metric_ops I_activate)

lemmas I_steps = I_body_phase I_logging I_finalize I_activate I_host I_start

end

locale stream_calls = stream_steps +
  assumes unwatched: "\<not> watched c"
begin

lemmas I_any_call = I_call [OF unwatched]
lemmas I_any_append = I_append [OF unwatched] I_append_response [OF unwatched]

end

text \<open>
  \<open>may_block\<close> tells whether the engine can intervene at all: only then replies are sent and
  bodies are replaced.
\<close>

locale stream_replies = stream_steps +
  fixes may_block :: bool
  assumes never: "\<not> may_block \<Longrightarrow> fst (eng_intervention (e_engine env) x) = None"
    and reply: "may_block \<Longrightarrow> 100 \<le> n \<Longrightarrow> n \<le> 599 \<Longrightarrow> allowed (SendLocalResponse n
        (reply_details (block (e_options env))) [] (block_headers (block (e_options env)) s))"
    and sanitized: "may_block \<Longrightarrow> allowed (SetResponseBuffer n kBlocked)"
      "may_block \<Longrightarrow> allowed (ReplaceResponseHeader ''content-length'' (nat_to_string (length kBlocked)))"
    and marked: "may_block \<Longrightarrow> I s \<Longrightarrow> I (s\<lparr>response_body_interrupted := True\<rparr>)"
    and marked_blocks: "I s \<Longrightarrow> response_body_interrupted s \<Longrightarrow> may_block"
begin

lemma intervention_blocks: "fst (processIntervention env ph s) \<noteq> 0 \<Longrightarrow> may_block"
proof (rule ccontr)
  assume "\<not> may_block"
  then have "fst (eng_intervention (e_engine env) x) = None" for x by (rule never)
  then have "fst (processIntervention env ph s) = 0"
    by (simp add: processIntervention_def Let_def prod.case_eq_if split: option.split)
  then show "fst (processIntervention env ph s) \<noteq> 0 \<Longrightarrow> False" by simp
qed

lemma I_block: "may_block \<Longrightarrow> I s \<Longrightarrow> I (sendBlockLocalResponse env st s)"
  unfolding sendBlockLocalResponse_def Let_def reply_details_def [symmetric]
  by (intro I_emit reply) auto

lemma I_check: "I s \<Longrightarrow> (\<And>s'. I s' \<Longrightarrow> I (snd (rest s'))) \<Longrightarrow> I (snd (check env ph stop s rest))"
  using I_intervention [of s ph] intervention_blocks [of ph s]
  by (auto simp: check_def I_block split: prod.split)

lemma I_sanitize: "may_block \<Longrightarrow> I s \<Longrightarrow> I (snd (sanitizeInterruptedResponseBody env n s))"
  by (simp add: sanitizeInterruptedResponseBody_def Let_def I_emit I_count metric_ops sanitized marked)

lemma I_end_request: "I s \<Longrightarrow> I (snd (end_request_body env stop s))"
  unfolding end_request_body_def by (intro I_check) (simp_all add: I_body_phase I_logging)

text \<open>The callbacks keep the invariant when it watches none of their calls.\<close>

lemma I_request_headers: "I s \<Longrightarrow> I (snd (onRequestHeaders env i eos s))"
proof -
  assume I: "I s"
  have tail: "I (snd (check env kRequestBody StopIteration (request_body_phase env s8)
      (\<lambda>s9. (Continue, runLoggingPhaseIfNeeded env s9))))" if "I s8" for s8
    using that by (intro I_check) (simp_all add: I_steps)
  show ?thesis
    unfolding onRequestHeaders_def Let_def
    by (auto simp: I I_steps I_engine connection_call_def tail prod.case_eq_if I_request_loop intro!: I_check)
qed

lemma I_request_body:
  "(\<And>t. \<not> watched (AppendRequestBody t)) \<Longrightarrow> I s \<Longrightarrow> I (snd (onRequestBody env get n eos s))"
  by (simp add: onRequestBody_def Let_def I_end_request I_append I_steps)

lemma I_request_trailers:
  "(\<And>t. \<not> watched (AppendRequestBody t)) \<Longrightarrow> I s \<Longrightarrow> I (snd (onRequestTrailers env n get s))"
  by (auto simp: onRequestTrailers_def appendBufferedRequestBody_def I_append I_steps intro!: I_end_request
      split: option.split)

text \<open>The response headers, once the request-body phase has run.\<close>

lemma I_process_headers:
  assumes "\<And>t. \<not> watched (AppendResponseBody t)" "\<And>k t. \<not> watched (ProcessResponseHeaders k t)" "I s"
  shows "I (snd (process_response_headers env hs eos s))"
  unfolding process_response_headers_def Let_def
  by (auto simp: assms I_call I_steps prod.case_eq_if I_response_loop intro!: I_check)

lemma I_response_headers:
  assumes "\<And>t. \<not> watched (AppendResponseBody t)" "\<And>k t. \<not> watched (ProcessResponseHeaders k t)" "I s"
  shows "I (snd (onResponseHeaders env hs eos s))"
  unfolding onResponseHeaders_def Let_def
  by (auto simp: assms I_steps intro!: I_check I_process_headers)

text \<open>A reply of the engine's intervention, in one of the response-body callbacks.\<close>

lemma I_intervened:
  assumes "I s" "processIntervention env ph s = (st, s')"
  shows "I s'" "st \<noteq> 0 \<Longrightarrow> may_block"
  using I_intervention [OF assms(1), of ph] intervention_blocks [of ph s] assms(2) by simp_all

lemma I_end_response:
  assumes "I s"
  shows "I (snd (end_response_body env n s))"
proof -
  obtain st s1 where p: "processIntervention env kResponseBody (finalizeResponseBodyPhase env s) = (st, s1)"
    by (cases "processIntervention env kResponseBody (finalizeResponseBodyPhase env s)")
  show ?thesis
    using I_intervened [OF I_finalize [OF assms] p]
    by (simp add: end_response_body_def p I_sanitize I_logging)
qed

lemma I_response_body:
  assumes c: "\<And>t. \<not> watched (AppendResponseBody t)" and "I s"
  shows "I (snd (onResponseBody env get n eos s))"
proof -
  let ?a = "activateContext s"
  have a: "I ?a" using assms(2) by (simp add: I_activate)
  have rest: "I (snd (if \<not> eos then (StopIterationAndBuffer, t) else end_response_body env n t))" if "I t" for t
    using that by (simp add: I_end_response)
  have app: "I (snd (case processIntervention env kResponseBody
      ((engine_op env (AppendResponseBody b) ?a)\<lparr>response_body_received := k\<rparr>) of (st, s4) \<Rightarrow>
        if st \<noteq> 0 then sanitizeInterruptedResponseBody env n (s4\<lparr>response_body_processed := True\<rparr>)
        else if \<not> eos then (StopIterationAndBuffer, s4) else end_response_body env n s4))" for b k
  proof -
    let ?t = "(engine_op env (AppendResponseBody b) ?a)\<lparr>response_body_received := k\<rparr>"
    obtain st s4 where p: "processIntervention env kResponseBody ?t = (st, s4)"
      by (cases "processIntervention env kResponseBody ?t")
    have "I ?t" using a c by (simp add: I_call)
    from I_intervened [OF this p] rest [of s4] show ?thesis
      unfolding p prod.case by (simp add: I_sanitize)
  qed
  show ?thesis
    unfolding onResponseBody_def Let_def
    using assms(2) a rest app marked_blocks [OF a]
    by (simp add: I_sanitize I_end_response split: option.split)
qed

lemma I_response_trailers:
  assumes c: "\<And>t. \<not> watched (AppendResponseBody t)" and "I s"
  shows "I (snd (onResponseTrailers env n get s))"
proof -
  let ?a = "activateContext s"
  have a: "I ?a" using assms(2) by (simp add: I_activate)
  obtain k s2 where ap: "appendBufferedResponseBody env n get ?a = (k, s2)"
    by (cases "appendBufferedResponseBody env n get ?a")
  have s2: "I s2" using I_append_response [OF c a, of n get] ap by simp
  obtain st s3 where p: "processIntervention env kResponseBody s2 = (st, s3)"
    by (cases "processIntervention env kResponseBody s2")
  note s3 = I_intervened [OF s2 p]
  obtain st2 s4 where q: "processIntervention env kResponseBody (finalizeResponseBodyPhase env s3) = (st2, s4)"
    by (cases "processIntervention env kResponseBody (finalizeResponseBodyPhase env s3)")
  note s4 = I_intervened [OF I_finalize [OF s3(1)] q]
  show ?thesis
    unfolding onResponseTrailers_def Let_def ap prod.case p q
    using assms(2) a s3 s4 marked_blocks [OF a] by (simp add: I_sanitize I_logging split: option.split)
qed

lemma I_log: "I s \<Longrightarrow> I (onLog env s)"
  by (simp add: onLog_def I_annotate I_steps)

lemma I_delete: "(\<And>t a. I t \<Longrightarrow> I (t\<lparr>active := a\<rparr>)) \<Longrightarrow> I s \<Longrightarrow> I (onDelete env s)"
  by (simp add: onDelete_def Let_def I_annotate I_intervention I_count metric_ops I_steps)

text \<open>The callbacks other than the response headers.\<close>

lemma I_other_callback:
  assumes "\<And>t. \<not> watched (AppendRequestBody t)" "\<And>t. \<not> watched (AppendResponseBody t)" "I s"
    and "\<And>hs eos. c \<noteq> ResponseHeaders hs eos" "\<And>t a. I t \<Longrightarrow> I (t\<lparr>active := a\<rparr>)"
  shows "I (run_callback env c s)"
proof (cases c)
  case (ResponseHeaders hs eos)
  with assms(4) show ?thesis by blast
qed (simp_all add: assms(1-3,5) I_request_body I_request_trailers I_response_body I_response_trailers
    I_log I_delete)

end

section \<open>Every callback keeps the invariant\<close>

locale stream_contract = stream_replies + stream_calls +
  assumes released: "I s \<Longrightarrow> I (s\<lparr>active := a\<rparr>)"
begin

lemma I_callback: "I s \<Longrightarrow> I (run_callback env c s)"
  by (cases c) (simp_all add: I_request_body I_request_trailers I_response_headers I_response_body
      I_response_trailers I_log I_delete released unwatched)

end

text \<open>The contract does not look at the host: it holds for every answer of the host.\<close>

lemma stream_contract_host:
  "stream_contract env allowed I watched may_block \<Longrightarrow> stream_contract (env\<lparr>e_host := h\<rparr>) allowed I watched may_block"
  by (simp add: stream_contract_def stream_contract_axioms_def stream_calls_def stream_replies_def stream_replies_axioms_def
      stream_steps_def stream_steps_axioms_def)

context stream_contract
begin

lemma I_reachable:
  assumes "reachable env s" "\<And>m. I (onCreate (new_stream m []))"
  shows "I s"
  using assms(1)
proof induction
  case (created h i eos m a)
  show ?case
    by (rule stream_replies.I_request_headers [OF stream_contract.axioms(1) [OF stream_contract_host [OF stream_contract_axioms]]])
      (rule released [OF assms(2)])
next
  case (called s h c)
  show ?case
    by (rule stream_contract.I_callback [OF stream_contract_host [OF stream_contract_axioms]])
      (rule called.IH)
next
  case (others s a m)
  then show ?case using frame [of "s\<lparr>active := a\<rparr>" "s\<lparr>met := m, active := a\<rparr>"] released by simp
qed

end

end
