(* ===== verification/Filter_Policies.thy ===== *)
theory Filter_Policies
  imports Filter_Contracts
begin

text \<open>
  What a stream may do to the outside world: the policies on its effects, the bounds on what it
  exports, and the redaction of exported matches.
\<close>

section \<open>The policy on effects\<close>

definition raw_error_text :: "'e env \<Rightarrow> string \<Rightarrow> bool" where
  "raw_error_text env l \<longleftrightarrow> (\<exists>x f g a b. eng_body_error (e_engine env) x = (f, g, a, b) \<and>
     (a = Some l \<or> b = Some l))"

text \<open>The headers a block reply may carry: those the options name, and only when switched on.\<close>

definition reply_header :: "WafBlockOptions \<Rightarrow> string \<times> string \<Rightarrow> bool" where
  "reply_header blk kv \<longleftrightarrow>
     (fst kv = blocked_header blk \<and> snd kv = ''1'') \<or>
     (add_rule_id_header blk \<and> fst kv = rule_id_header blk) \<or>
     (add_request_id_header blk \<and> fst kv = request_id_header blk)"

fun effect_allowed :: "'e env \<Rightarrow> effect \<Rightarrow> bool" where
  "effect_allowed env (LogWarn l) = (one_line l \<or> raw_error_text env l)"
| "effect_allowed env (LogError l) = False"
| "effect_allowed env (SendLocalResponse n details body headers) =
     (100 \<le> n \<and> n \<le> 599 \<and> body = [] \<and> details = reply_details (block (e_options env)) \<and>
      list_all (reply_header (block (e_options env))) headers)"
| "effect_allowed env (SetResponseBuffer n body) = (body = ''Forbidden'' @ [LF])"
| "effect_allowed env (ReplaceResponseHeader k v) = (k = ''content-length'' \<and> v = ''10'')"
| "effect_allowed env (LoadRules rules ref) = False"
| "effect_allowed env e = True"

lemma metric_allowed: "metric_effect e \<Longrightarrow> effect_allowed env e"
  by (cases e) (simp_all add: metric_effect_def)

lemma block_headers_allowed: "list_all (reply_header blk) (block_headers blk s)"
  by (simp add: block_headers_def reply_header_def)

lemma kBlocked_length: "nat_to_string (length kBlocked) = ''10''"
  unfolding kBlocked_def by code_simp

interpretation policy: stream_contract env "effect_allowed env" "\<lambda>s. list_all (effect_allowed env) (tr s)"
  "\<lambda>_. False" True
  for env :: "'e env"
proof unfold_locales
  fix s :: "'e stream" and event rule_id phase sev d msg data
  assume "list_all (effect_allowed env) (tr s)"
  then show "list_all (effect_allowed env) (tr (stashExportMatch event rule_id phase sev d msg data s))"
    by (simp add: stashExportMatch_def Let_def split: option.split)
next
  show "effect_allowed env (LogWarn l)"
    if "eng_body_error (e_engine env) x = (f, g, a, b)" "t = a \<or> t = b" "t = Some l"
    for x f g a b t l
    using that unfolding raw_error_text_def effect_allowed.simps by blast
next
  show "effect_allowed env (SetResponseBuffer n kBlocked)" for n by (simp add: kBlocked_def)
  show "effect_allowed env (ReplaceResponseHeader ''content-length'' (nat_to_string (length kBlocked)))"
    unfolding kBlocked_length by simp
qed (simp_all add: metric_allowed block_headers_allowed)

section \<open>The bounds on exported matches\<close>

definition export_bounded :: "'e stream \<Rightarrow> bool" where
  "export_bounded s \<longleftrightarrow> length (export_matches s) \<le> 16 \<and>
     list_all (\<lambda>m. length (em_msg m) \<le> 256 \<and> length (em_data m) \<le> 180) (export_matches s)"

lemma stash_bounded: "export_bounded s \<Longrightarrow> export_bounded (stashExportMatch event rule_id phase sev d msg data s)"
  by (auto simp: export_bounded_def stashExportMatch_def kCap_def Let_def list_all_iff
      dest: in_set_butlastD split: option.split)

interpretation cap: stream_contract env "\<lambda>_. True" export_bounded "\<lambda>_. False" True for env :: "'e env"
  by unfold_locales (simp_all add: stash_bounded, simp_all add: export_bounded_def)

section \<open>Traffic the engine does not object to\<close>

definition may_intervene :: "'e env \<Rightarrow> bool" where
  "may_intervene env \<longleftrightarrow> (\<exists>x. fst (eng_intervention (e_engine env) x) \<noteq> None)"

fun visible :: "effect \<Rightarrow> bool" where
  "visible (SendLocalResponse n details body headers) = True"
| "visible (SetResponseBuffer n body) = True"
| "visible (ReplaceResponseHeader k v) = True"
| "visible _ = False"

definition untouched :: "'e env \<Rightarrow> 'e stream \<Rightarrow> bool" where
  "untouched env s \<longleftrightarrow> may_intervene env \<or>
     (\<not> response_body_interrupted s \<and> list_all (\<lambda>e. \<not> visible e) (tr s))"

lemma metric_not_visible: "metric_effect e \<Longrightarrow> \<not> visible e"
  by (cases e) (simp_all add: metric_effect_def)

interpretation benign: stream_contract env "\<lambda>e. may_intervene env \<or> \<not> visible e" "untouched env"
  "\<lambda>_. False" "may_intervene env" for env :: "'e env"
proof unfold_locales
  show "untouched env (stashExportMatch event rule_id phase sev d msg data s)" if "untouched env s"
    for s :: "'e stream" and event rule_id phase sev d msg data
    using that by (simp add: untouched_def stashExportMatch_def Let_def split: option.split)
  show "fst (eng_intervention (e_engine env) x) = None" if "\<not> may_intervene env" for x
    using that by (simp add: may_intervene_def)
qed (auto simp: untouched_def metric_not_visible)

section \<open>A stream for the witnesses\<close>

text \<open>An engine that reports one match on every call and interrupts at the request body.\<close>

definition demo_message :: rule_message where
  "demo_message = \<lparr>m_ruleId = 941100, m_phase = 1, m_severity = 2, m_isDisruptive = True,
     m_message = ''XSS'', m_data = ''<script'', m_match = [], m_tags = [''attack-xss'']\<rparr>"

definition demo_engine :: "nat engine" where
  "demo_engine = \<lparr>eng_new = (\<lambda>t. 0), eng_call = (\<lambda>c n. ([], n + 1)), eng_messages = (\<lambda>n. [demo_message]),
     eng_intervention = (\<lambda>n. (Some \<lparr>iv_status = 403, iv_url = None, iv_log = None\<rparr>, n)),
     eng_body_error = (\<lambda>n. (None, None, None, None))\<rparr>"

definition demo_env :: "nat env" where
  "demo_env = \<lparr>e_host = \<lparr>define_metric = (\<lambda>t k n. Some (length t)), heap_size = (\<lambda>t. 1),
       set_filter_state = (\<lambda>t k v. True)\<rparr>,
     e_engine = demo_engine, e_options = default_plugin_options, e_id = 7, e_ready = True\<rparr>"

definition demo_input :: request_input where
  "demo_input = \<lparr>source_address = None, source_port = None, destination_address = None,
     destination_port = None, path_header = Some ''/'', path_property = None, request_path = None,
     request_url_path = None, method_header = Some ''GET'', method_property = None,
     x_request_id = None, x_envoy_request_id = None, id_property = None, request_protocol = None,
     header_pairs = Some [(''host'', ''a'')], authority_header = None, authority_property = None\<rparr>"

definition demo_stream :: "nat stream" where
  "demo_stream = snd (onRequestHeaders demo_env demo_input True
     ((onCreate (new_stream new_metrics []))\<lparr>active := Other\<rparr>))"

definition calm_env :: "nat env" where
  "calm_env = demo_env\<lparr>e_engine := demo_engine\<lparr>eng_intervention := (\<lambda>n. (None, n))\<rparr>\<rparr>"

definition calm_stream :: "nat stream" where
  "calm_stream = snd (onRequestHeaders calm_env demo_input False
     ((onCreate (new_stream new_metrics []))\<lparr>active := Nobody\<rparr>))"

lemma demo_reachable: "reachable demo_env demo_stream"
  unfolding demo_stream_def using reachable.created [of demo_env "e_host demo_env"] by simp

lemma calm_reachable: "reachable calm_env calm_stream"
  unfolding calm_stream_def using reachable.created [of calm_env "e_host calm_env"] by simp

section \<open>Properties\<close>

text \<open>
  C2: whatever the request, the response, the engine and the host do, and in
  whatever order the callbacks come, a stream only does what the policy allows. A block reply
  has a status from 100 to 599, the configured text (or the neutral one) and no header but
  those the options name; an interrupted response body is only ever overwritten with the
  neutral text, with the matching content length; every log line is a single line, except the
  engine's own request-body error text; rules are never loaded from a stream.
\<close>

theorem stream_effects:
  assumes "reachable env s"
  shows "list_all (effect_allowed env) (tr s)"
  using assms by (rule policy.I_reachable) (simp add: onCreate_def new_stream_def)

lemma stream_effects_witness: "list_all (effect_allowed demo_env) (tr demo_stream)"
  by (rule stream_effects [OF demo_reachable])

text \<open>
  C11: while the engine objects to nothing, the filter is transparent: in no
  run of a stream does it send a reply, replace a body or touch a response header.
\<close>

theorem benign_passes:
  assumes "reachable env s" "\<And>x. fst (eng_intervention (e_engine env) x) = None"
  shows "list_all (\<lambda>e. \<not> visible e) (tr s)"
proof -
  have "untouched env s"
    using assms(1) by (rule benign.I_reachable) (simp add: untouched_def onCreate_def new_stream_def)
  moreover have "\<not> may_intervene env" using assms(2) by (simp add: may_intervene_def)
  ultimately show ?thesis by (simp add: untouched_def)
qed

lemma benign_passes_witness: "list_all (\<lambda>e. \<not> visible e) (tr calm_stream)"
  by (rule benign_passes [OF calm_reachable]) (simp add: calm_env_def)

text \<open>
  C25: a stream never holds more than 16 matches for the export, each with
  at most 256 bytes of message and 180 bytes of data, however many rules match.
\<close>

theorem export_is_bounded:
  assumes "reachable env s"
  shows "export_bounded s"
  using assms by (rule cap.I_reachable) (simp add: onCreate_def new_stream_def export_bounded_def)

lemma export_is_bounded_witness: "export_bounded demo_stream"
  by (rule export_is_bounded [OF demo_reachable])

definition blank_data :: "(string \<Rightarrow> string) \<Rightarrow> ExportMatch \<Rightarrow> ExportMatch" where
  "blank_data f m = m\<lparr>em_data := f (em_data m)\<rparr>"

lemma match_list_blank:
  assumes "\<And>m. match_text tel (blank_data f m) = match_text tel m"
  shows "match_list tel first (map (blank_data f) ms) = match_list tel first ms"
  using assms by (induction ms arbitrary: first) simp_all

text \<open>
  C19: the exported record does not depend on what it must not disclose. With
  match data switched off, the data of the matches may be anything; with match data on, data
  that looks like a secret may be replaced by nothing; with redaction on, the client address
  may be anything.
\<close>

theorem export_redacts:
  "(\<not> include_match_data (telemetry (e_options env)) \<longrightarrow>
     export_text env (s\<lparr>export_matches := map (blank_data f) (export_matches s)\<rparr>) = export_text env s) \<and>
   export_text env (s\<lparr>export_matches :=
     map (blank_data (\<lambda>d. if wafTelemetryLooksSecret d then [] else d)) (export_matches s)\<rparr>) = export_text env s \<and>
   (redact (telemetry (e_options env)) \<longrightarrow> export_text env (s\<lparr>client_ip := ip\<rparr>) = export_text env s)"
proof (intro conjI impI)
  let ?tel = "telemetry (e_options env)"
  show "export_text env (s\<lparr>export_matches := map (blank_data f) (export_matches s)\<rparr>) = export_text env s"
    if "\<not> include_match_data ?tel"
    using match_list_blank [of ?tel f True "export_matches s"] that
    by (simp add: export_text_def Let_def match_text_def blank_data_def)
  show "export_text env (s\<lparr>export_matches :=
      map (blank_data (\<lambda>d. if wafTelemetryLooksSecret d then [] else d)) (export_matches s)\<rparr>) = export_text env s"
    using match_list_blank [of ?tel "\<lambda>d. if wafTelemetryLooksSecret d then [] else d" True "export_matches s"]
    by (simp add: export_text_def Let_def match_text_def blank_data_def)
  show "export_text env (s\<lparr>client_ip := ip\<rparr>) = export_text env s" if "redact ?tel"
    using that by (simp add: export_text_def Let_def)
qed

lemma export_redacts_witness:
  "export_text demo_env (demo_stream\<lparr>client_ip := ''10.1.2.3''\<rparr>) = export_text demo_env demo_stream"
  using export_redacts [where env = demo_env and s = demo_stream and f = "\<lambda>d. d" and ip = "''10.1.2.3''"]
  by (simp add: demo_env_def default_plugin_options_def default_telemetry_options_def)

text \<open>
  An intervention with status 0 is recorded as a drop, and yet the callback goes on: without a
  status in the options the filter takes the 0 for \<^verbatim>\<open>no intervention\<close>.
\<close>

lemma tx_action_kept:
  "tx_action (stashExportMatch event rule_id phase sev d msg dat s) = tx_action s"
  "tx_action (maybeAnnotateExport env s) = tx_action s"
  "tx_action (logStructuredEvent env event rule_id p phase sev d msg csv dat mat s) = tx_action s"
  "interrupted (stashExportMatch event rule_id phase sev d msg dat s) = interrupted s"
  "interrupted (maybeAnnotateExport env s) = interrupted s"
  "interrupted (logStructuredEvent env event rule_id p phase sev d msg csv dat mat s) = interrupted s"
  "interrupted (count f s) = interrupted s"
  by (simp_all add: stashExportMatch_def maybeAnnotateExport_def logStructuredEvent_def emit_def
      count_def Let_def prod.case_eq_if split: option.split)

lemma drop_with_status_zero_passes:
  assumes "status (block (e_options env)) = 0" "iv_status iv = 0" "iv_url iv = None"
  shows "fst (note_intervention env ph iv s) = 0 \<and> interrupted (snd (note_intervention env ph iv s)) \<and>
    tx_action (snd (note_intervention env ph iv s)) = ''drop''"
  using assms by (simp add: note_intervention_def Let_def tx_action_kept wafTelemetryAction_def)

end
