(* ===== verification/Filter_Phases.thy ===== *)
theory Filter_Phases
  imports Filter_Policies
begin

text \<open>
  The order of the engine's phases on a stream: each of the body phases and the logging phase
  runs at most once, and the deletion of the stream completes what was left out.
\<close>

section \<open>Phase states\<close>

definition calls :: "engine_call \<Rightarrow> trace \<Rightarrow> nat" where
  "calls c t = length (filter (\<lambda>e. e = EngineCall c) t)"

lemma calls_simps [simp]:
  "calls c [] = 0" "calls c (t @ u) = calls c t + calls c u"
  "calls c (e # t) = (if e = EngineCall c then 1 else 0) + calls c t"
  by (simp_all add: calls_def)

text \<open>Whether there is no transaction, the three flags, and how often the three phases ran.\<close>

type_synonym phase_state = "bool \<times> bool \<times> bool \<times> bool \<times> nat \<times> nat \<times> nat"

definition phase_state :: "'e stream \<Rightarrow> phase_state" where
  "phase_state s = (transaction s = None, request_body_processed s, response_body_processed s,
     logging_phase_done s, calls ProcessRequestBody (tr s), calls ProcessResponseBody (tr s),
     calls ProcessLogging (tr s))"

fun phase_ok :: "phase_state \<Rightarrow> bool" where
  "phase_ok (no_tx, rb, sb, lg, n2, n4, n5) =
     (n2 = (if rb then 1 else 0) \<and> n4 \<le> 1 \<and> (n4 = 1 \<longrightarrow> sb) \<and> n5 = (if lg then 1 else 0))"

definition phases_ok :: "'e stream \<Rightarrow> bool" where
  "phases_ok s = phase_ok (phase_state s)"

section \<open>Steps that leave the phases alone\<close>

lemma ps_fields [simp]:
  "phase_state (s\<lparr>request_body_received := n\<rparr>) = phase_state s"
  "phase_state (s\<lparr>response_body_received := n\<rparr>) = phase_state s"
  "phase_state (s\<lparr>response_body_interrupted := b\<rparr>) = phase_state s"
  "phase_state (s\<lparr>interrupted := b\<rparr>) = phase_state s"
  "phase_state (s\<lparr>last_disruptive_rule_id := i\<rparr>) = phase_state s"
  "phase_state (s\<lparr>rules_messages_seen := n\<rparr>) = phase_state s"
  "phase_state (s\<lparr>request_id := t\<rparr>) = phase_state s" "phase_state (s\<lparr>req_method := t\<rparr>) = phase_state s"
  "phase_state (s\<lparr>req_path := t\<rparr>) = phase_state s" "phase_state (s\<lparr>client_ip := t\<rparr>) = phase_state s"
  "phase_state (s\<lparr>http_version_token := t\<rparr>) = phase_state s"
  "phase_state (s\<lparr>tx_action := t\<rparr>) = phase_state s" "phase_state (s\<lparr>last_phase := t\<rparr>) = phase_state s"
  "phase_state (s\<lparr>export_annotated := b\<rparr>) = phase_state s"
  "phase_state (s\<lparr>export_matches := ms\<rparr>) = phase_state s"
  "phase_state (s\<lparr>active := a\<rparr>) = phase_state s" "phase_state (s\<lparr>met := m\<rparr>) = phase_state s"
  by (simp_all add: phase_state_def)

definition phase_call :: "effect \<Rightarrow> bool" where
  "phase_call e \<longleftrightarrow> e = EngineCall ProcessRequestBody \<or> e = EngineCall ProcessResponseBody \<or>
     e = EngineCall ProcessLogging"

lemma ps_effects: "list_all (\<lambda>e. \<not> phase_call e) es \<Longrightarrow> phase_state (s\<lparr>tr := tr s @ es\<rparr>) = phase_state s"
proof -
  assume "list_all (\<lambda>e. \<not> phase_call e) es"
  then have "calls ProcessRequestBody es = 0" "calls ProcessResponseBody es = 0" "calls ProcessLogging es = 0"
    by (auto simp: calls_def filter_empty_conv list_all_iff phase_call_def)
  then show ?thesis by (simp add: phase_state_def)
qed

lemma ps_emit: "\<not> phase_call e \<Longrightarrow> phase_state (emit e s) = phase_state s"
  using ps_effects [of "[e]" s] by (simp add: emit_def)

lemma ps_quiet_effects [simp]:
  "phase_state (emit (LogWarn l) s) = phase_state s" "phase_state (emit (SetFilterState k v) s) = phase_state s"
  "phase_state (emit (SendLocalResponse n d b hs) s) = phase_state s"
  "phase_state (emit (ForeignMatch rm) s) = phase_state s"
  "phase_state (emit (SetResponseBuffer n t) s) = phase_state s"
  "phase_state (emit (ReplaceResponseHeader k v) s) = phase_state s"
  "phase_state (emit (EngineCall Intervention) s) = phase_state s"
  "phase_state (emit (EngineCall (NewTransaction t)) s) = phase_state s"
  by (simp_all add: ps_emit phase_call_def)

lemma emit_transaction [simp]: "transaction (emit e s) = transaction s"
  by (simp add: emit_def)

lemma ps_count: "metric_op f \<Longrightarrow> phase_state (count f s) = phase_state s"
proof -
  assume f: "metric_op f"
  obtain es where es: "snd (f (met s, tr s)) = tr s @ es" "list_all metric_effect es"
    using metric_opD [OF f, of "(met s, tr s)"] by auto
  have "list_all (\<lambda>e. \<not> phase_call e) es"
    using es(2) by (rule list.pred_mono_strong) (auto simp: phase_call_def metric_effect_def)
  from ps_effects [OF this, of s] es(1) show ?thesis
    by (simp add: count_def prod.case_eq_if phase_state_def)
qed

lemma ps_counts [simp]:
  "phase_state (count (countTxTotal h) s) = phase_state s"
  "phase_state (count (countTxAllowed h) s) = phase_state s"
  "phase_state (count (countTxInterruption h p i) s) = phase_state s"
  "phase_state (count (countRuleMatch h ph sev d i tags) s) = phase_state s"
  "phase_state (count (countResponseBodySanitized h) s) = phase_state s"
  by (simp_all add: ps_count metric_ops)

lemma ps_log [simp]: "phase_state (log_event (logJson e ev m) s) = phase_state s"
  "phase_state (log_event (logRuleMatchJson rm) s) = phase_state s"
  by (simp_all add: phase_state_def log_event_def logJson_def logRuleMatchJson_def Let_def)

lemma ps_structured [simp]:
  "phase_state (logStructuredEvent env ev i ph pn sev d msg csv dat mat s) = phase_state s"
  by (simp add: logStructuredEvent_def)

lemma ps_stash [simp]: "phase_state (stashExportMatch ev i ph sev d msg dat s) = phase_state s"
  by (simp add: stashExportMatch_def Let_def split: option.split)

lemma ps_record [simp]: "phase_state (recordRuleMatch env rm s) = phase_state s"
  by (simp add: recordRuleMatch_def Let_def noteDisruptiveRule_def)

lemma ps_fold: "(\<And>x s. phase_state (f x s) = phase_state s) \<Longrightarrow> phase_state (fold f xs s) = phase_state s"
  by (induction xs arbitrary: s) simp_all

lemma ps_log_cb [simp]: "phase_state (log_cb env m s) = phase_state s"
  by (simp add: log_cb_def split: option.split active_context.split)

lemma ps_flush [simp]: "phase_state (flushNewRuleMessages env s) = phase_state s"
  by (simp add: flushNewRuleMessages_def Let_def ps_fold split: option.split)

lemma ps_errors [simp]: "phase_state (logRequestBodyProcessorErrors env s) = phase_state s"
  by (simp add: logRequestBodyProcessorErrors_def Let_def split: option.split prod.split)

lemma ps_annotate [simp]: "phase_state (maybeAnnotateExport env s) = phase_state s"
  by (simp add: maybeAnnotateExport_def Let_def)

lemma ps_note [simp]: "phase_state (snd (note_intervention env ph iv s)) = phase_state s"
  by (simp add: note_intervention_def Let_def)

lemma ps_next_tx: "transaction s \<noteq> None \<Longrightarrow> phase_state (s\<lparr>transaction := Some e\<rparr>) = phase_state s"
  by (simp add: phase_state_def)

lemma ps_intervention [simp]: "phase_state (snd (processIntervention env ph s)) = phase_state s"
proof (cases "transaction (flushNewRuleMessages env s)")
  case (Some e)
  then have "phase_state ((emit (EngineCall Intervention) (flushNewRuleMessages env s))\<lparr>transaction := Some e'\<rparr>) =
      phase_state s" for e'
    by (subst ps_next_tx) simp_all
  then show ?thesis
    by (simp add: processIntervention_def Let_def Some split: prod.split option.split)
qed (simp add: processIntervention_def Let_def)

lemma ps_block [simp]: "phase_state (sendBlockLocalResponse env st s) = phase_state s"
  by (simp add: sendBlockLocalResponse_def Let_def)

lemma ps_sanitize [simp]: "phase_state (snd (sanitizeInterruptedResponseBody env n s)) = phase_state s"
  by (simp add: sanitizeInterruptedResponseBody_def Let_def)

lemma ps_activate [simp]: "phase_state (activateContext s) = phase_state s"
  by (simp add: activateContext_def)

lemma ps_tx: "phase_state s' = phase_state s \<Longrightarrow> transaction s' = None \<longleftrightarrow> transaction s = None"
  by (simp add: phase_state_def)

section \<open>Steps that run a phase\<close>

lemma ps_engine:
  assumes "transaction s \<noteq> None"
  shows "phase_state (engine_op env c s) = (transaction s = None, request_body_processed s,
     response_body_processed s, logging_phase_done s,
     calls ProcessRequestBody (tr s) + (if c = ProcessRequestBody then 1 else 0),
     calls ProcessResponseBody (tr s) + (if c = ProcessResponseBody then 1 else 0),
     calls ProcessLogging (tr s) + (if c = ProcessLogging then 1 else 0))"
proof -
  obtain e where e: "transaction s = Some e" using assms by auto
  obtain ms e' where c: "eng_call (e_engine env) c e = (ms, e')" by (cases "eng_call (e_engine env) c e")
  have "phase_state (engine_op env c s) = phase_state ((emit (EngineCall c) s)\<lparr>transaction := Some e'\<rparr>)"
    by (simp add: engine_op_def e c ps_fold)
  then show ?thesis by (simp add: phase_state_def emit_def e)
qed

lemma ps_other_engine [simp]:
  assumes "c \<notin> {ProcessRequestBody, ProcessResponseBody, ProcessLogging}"
  shows "phase_state (engine_op env c s) = phase_state s"
proof (cases "transaction s")
  case None
  then show ?thesis by (simp add: engine_op_def)
next
  case (Some e)
  then show ?thesis using ps_engine [of s env c] assms by (simp add: phase_state_def)
qed

lemma ps_append [simp]: "phase_state (append_request env get n s) = phase_state s"
  by (simp add: append_request_def Let_def split: option.split)

lemma ps_append_response [simp]: "phase_state (snd (appendBufferedResponseBody env n get s)) = phase_state s"
  by (simp add: appendBufferedResponseBody_def Let_def split: option.split)

lemma ps_request_loop: "phase_state (fst (request_headers_loop env hs acc)) = phase_state (fst acc)"
proof (induction hs arbitrary: acc)
  case (Cons h hs)
  then show ?case by (cases h; cases acc) (simp add: Let_def)
qed simp

lemma ps_response_loop: "phase_state (fst (response_headers_loop env hs acc)) = phase_state (fst acc)"
proof (induction hs arbitrary: acc)
  case (Cons h hs)
  then show ?case by (cases h; cases acc) simp
qed simp

lemma ps_host [simp]: "phase_state (add_host_header env i s) = phase_state s"
  by (simp add: add_host_header_def Let_def)

lemma ps_body_phase:
  assumes "phase_state s = (False, rb, sb, lg, n2, n4, n5)"
  shows "phase_state (request_body_phase env s) = (False, True, sb, lg, n2 + 1, n4, n5)"
proof -
  have t: "transaction s \<noteq> None" using assms by (simp add: phase_state_def)
  have flag: "phase_state (s'\<lparr>request_body_processed := True\<rparr>) = (case phase_state s' of
      (a, b, c) \<Rightarrow> (a, True, c))" for s' :: "'a stream" by (simp add: phase_state_def)
  have "phase_state (engine_op env ProcessRequestBody s) = (False, rb, sb, lg, n2 + 1, n4, n5)"
    using ps_engine [OF t, of env ProcessRequestBody] assms by (simp add: phase_state_def)
  then show ?thesis by (simp add: request_body_phase_def flag)
qed

lemma ps_finalize:
  assumes "phase_state s = (False, rb, sb, lg, n2, n4, n5)"
  shows "phase_state (finalizeResponseBodyPhase env s) =
    (False, rb, True, lg, n2, if sb then n4 else n4 + 1, n5)"
proof -
  have t: "transaction s \<noteq> None" using assms by (simp add: phase_state_def)
  have "phase_state (s'\<lparr>response_body_processed := True\<rparr>) = (case phase_state s' of
      (a, b, c, d) \<Rightarrow> (a, b, True, d))" for s' :: "'a stream" by (simp add: phase_state_def)
  then show ?thesis
    using ps_engine [OF t, of env ProcessResponseBody] assms
    by (auto simp: finalizeResponseBodyPhase_def phase_state_def)
qed

lemma ps_logging:
  assumes "phase_state s = (False, rb, sb, lg, n2, n4, n5)"
  shows "phase_state (runLoggingPhaseIfNeeded env s) =
    (False, rb, sb, True, n2, n4, if lg then n5 else n5 + 1)"
proof -
  have t: "transaction s \<noteq> None" "logging_phase_done s = lg" using assms by (simp_all add: phase_state_def)
  have t2: "transaction (activateContext s) \<noteq> None" using t by (simp add: activateContext_def)
  have fin: "phase_state (s'\<lparr>rules_messages_seen := k, logging_phase_done := True\<rparr>) =
      (case phase_state s' of (a, b, c, d, r) \<Rightarrow> (a, b, c, True, r))" for s' :: "'a stream" and k
    by (simp add: phase_state_def)
  have "phase_state (engine_op env ProcessLogging (activateContext s)) =
      (False, rb, sb, lg, n2, n4, n5 + 1)"
    using ps_engine [OF t2, of env ProcessLogging] assms ps_activate [of s] by (simp add: phase_state_def)
  then show ?thesis
    using t assms by (simp add: runLoggingPhaseIfNeeded_def Let_def fin ps_fold)
qed

section \<open>Callbacks keep the phases in order\<close>

lemma check_phases:
  assumes "phase_state s = p" "R p" "\<And>s'. phase_state s' = p \<Longrightarrow> R (phase_state (snd (rest s')))"
  shows "R (phase_state (snd (check env ph stop s rest)))"
  using assms by (simp add: check_def prod.case_eq_if)

lemma phases_logging: "phases_ok s \<Longrightarrow> phases_ok (runLoggingPhaseIfNeeded env s)"
proof (cases "phase_state s")
  case (fields no_tx rb sb lg n2 n4 n5)
  assume ok: "phases_ok s"
  show ?thesis
  proof (cases no_tx)
    case True
    then have "transaction s = None" using fields by (simp add: phase_state_def)
    with ok show ?thesis by (simp add: runLoggingPhaseIfNeeded_def)
  next
    case False
    with ok fields ps_logging [of s rb sb lg n2 n4 n5 env] show ?thesis by (simp add: phases_ok_def)
  qed
qed

lemma phases_finalize: "phases_ok s \<Longrightarrow> phases_ok (finalizeResponseBodyPhase env s)"
proof (cases "phase_state s")
  case (fields no_tx rb sb lg n2 n4 n5)
  assume ok: "phases_ok s"
  show ?thesis
  proof (cases no_tx)
    case True
    then have "transaction s = None" using fields by (simp add: phase_state_def)
    with ok show ?thesis by (simp add: finalizeResponseBodyPhase_def)
  next
    case False
    with ok fields ps_finalize [of s rb sb lg n2 n4 n5 env] show ?thesis by (auto simp: phases_ok_def)
  qed
qed

lemma phases_body:
  assumes "phases_ok s" "transaction s \<noteq> None" "\<not> request_body_processed s"
  shows "phases_ok (request_body_phase env s)"
proof -
  have "phase_state s = (False, False, response_body_processed s, logging_phase_done s,
     calls ProcessRequestBody (tr s), calls ProcessResponseBody (tr s), calls ProcessLogging (tr s))"
    using assms by (simp add: phase_state_def)
  from ps_body_phase [OF this, of env] assms this show ?thesis by (simp add: phases_ok_def)
qed

text \<open>What does not touch the phase state does not touch the invariant.\<close>

lemma phases_kept [simp]:
  "phases_ok (activateContext s) = phases_ok s"
  "phases_ok (append_request env get n s) = phases_ok s"
  "phases_ok (snd (appendBufferedResponseBody env k get s)) = phases_ok s"
  "phases_ok (snd (sanitizeInterruptedResponseBody env n s)) = phases_ok s"
  "phases_ok (snd (processIntervention env ph s)) = phases_ok s"
  "phases_ok (maybeAnnotateExport env s) = phases_ok s"
  "phases_ok (count (countTxAllowed h) s) = phases_ok s"
  "phases_ok (s\<lparr>request_body_received := n\<rparr>) = phases_ok s"
  "phases_ok (s\<lparr>response_body_received := n\<rparr>) = phases_ok s"
  "phases_ok (engine_op env (AppendResponseBody t) s) = phases_ok s"
  "phases_ok (engine_op env (ProcessResponseHeaders i t) s) = phases_ok s"
  by (simp_all add: phases_ok_def)

lemma phases_append [simp]: "phases_ok (appendBufferedRequestBody env n get s) = phases_ok s"
  by (simp add: appendBufferedRequestBody_def split: option.split)

lemma phases_processed: "phases_ok s \<Longrightarrow> phases_ok (s\<lparr>response_body_processed := True\<rparr>)"
  by (simp add: phases_ok_def phase_state_def)

lemma phases_check:
  assumes "phases_ok s" "\<And>s'. phase_state s' = phase_state s \<Longrightarrow> phases_ok (snd (rest s'))"
  shows "phases_ok (snd (check env ph stop s rest))"
  unfolding check_def using assms by (simp add: prod.case_eq_if phases_ok_def)

text \<open>The flags the callbacks test, after the steps that leave them alone.\<close>

lemma flags_kept:
  assumes "phase_state s' = phase_state s"
  shows "transaction s' = None \<longleftrightarrow> transaction s = None"
    "request_body_processed s' = request_body_processed s"
    "response_body_processed s' = response_body_processed s"
  using assms by (simp_all add: phase_state_def)

lemma flags_append_request [simp]:
  "(transaction (append_request env get n s) = None) = (transaction s = None)"
  "request_body_processed (append_request env get n s) = request_body_processed s"
  by (rule flags_kept; simp)+

lemma flags_activate [simp]:
  "transaction (activateContext s) = transaction s"
  "request_body_processed (activateContext s) = request_body_processed s"
  "response_body_processed (activateContext s) = response_body_processed s"
  by (simp_all add: activateContext_def)

lemma phases_end_request:
  assumes "phases_ok s" "transaction s \<noteq> None" "\<not> request_body_processed s"
  shows "phases_ok (snd (end_request_body env stop s))"
proof -
  have "phases_ok ((request_body_phase env s)\<lparr>request_body_received := 0\<rparr>)"
    using phases_body [OF assms] by simp
  moreover have "phases_ok (runLoggingPhaseIfNeeded env s')"
    if "phase_state s' = phase_state ((request_body_phase env s)\<lparr>request_body_received := 0\<rparr>)" for s'
    using that phases_body [OF assms] by (intro phases_logging) (simp add: phases_ok_def)
  ultimately show ?thesis unfolding end_request_body_def by (intro phases_check) simp_all
qed

lemma phases_request_body: "phases_ok s \<Longrightarrow> phases_ok (snd (onRequestBody env get n eos s))"
  by (simp add: onRequestBody_def Let_def phases_end_request)

lemma phases_request_trailers: "phases_ok s \<Longrightarrow> phases_ok (snd (onRequestTrailers env n get s))"
proof -
  assume ok: "phases_ok s"
  have "(transaction (appendBufferedRequestBody env n get t) = None) = (transaction t = None)"
    "request_body_processed (appendBufferedRequestBody env n get t) = request_body_processed t" for t
    by (simp_all add: appendBufferedRequestBody_def split: option.split)
  then show ?thesis using ok by (simp add: onRequestTrailers_def phases_end_request)
qed

lemma phases_end_response: "phases_ok s \<Longrightarrow> phases_ok (snd (end_response_body env n s))"
  by (simp add: end_response_body_def prod.case_eq_if phases_finalize phases_logging)

text \<open>The response headers after the request-body phase.\<close>

lemma phases_same: "phase_state s' = phase_state s \<Longrightarrow> phases_ok s \<Longrightarrow> phases_ok s'"
  by (simp add: phases_ok_def)

lemma phases_end_headers:
  assumes "phases_ok s"
  shows "phases_ok (snd (check env kResponseBody StopIteration (finalizeResponseBodyPhase env s) (\<lambda>s6.
      (Continue, runLoggingPhaseIfNeeded env s6))))"
  using phases_finalize [OF assms, of env]
  by (intro phases_check) (simp_all add: phases_logging phases_same)

lemma phases_process_headers:
  assumes "phases_ok s2"
  shows "phases_ok (snd (process_response_headers env hs eos s2))"
proof -
  obtain s3 bs ch sc where l: "response_headers_loop env (assign [] hs) (s2, 0, False, 200) = (s3, bs, ch, sc)"
    by (metis prod.collapse)
  have "phase_state s3 = phase_state s2"
    using ps_response_loop [of env "assign [] hs" "(s2, 0, False, 200)"] l by simp
  then have s3: "phases_ok s3" using assms by (rule phases_same)
  have empty: "phases_ok (snd (check env kResponseBody StopIteration (engine_op env (AppendResponseBody [NUL]) t) (\<lambda>s5.
      check env kResponseBody StopIteration (finalizeResponseBodyPhase env s5) (\<lambda>s6.
      (Continue, runLoggingPhaseIfNeeded env s6)))))" if "phases_ok t" for t
  proof (rule phases_check)
    show ok: "phases_ok (engine_op env (AppendResponseBody [NUL]) t)" using that by simp
    show "phases_ok (snd (check env kResponseBody StopIteration (finalizeResponseBodyPhase env s') (\<lambda>s6.
      (Continue, runLoggingPhaseIfNeeded env s6))))"
      if "phase_state s' = phase_state (engine_op env (AppendResponseBody [NUL]) t)" for s'
      by (rule phases_end_headers [OF phases_same [OF that ok]])
  qed
  show ?thesis unfolding process_response_headers_def l prod.case Let_def
  proof (rule phases_check)
    let ?e = "engine_op env (ProcessResponseHeaders sc (modsecHttpProtocol (http_version_token s3))) s3"
    show ok: "phases_ok ?e" using s3 by simp
    show "phases_ok (snd (if \<not> ((0 < bs \<or> ch) \<or> (statusMayHaveBody sc \<and> \<not> eos)) then
           check env kResponseBody StopIteration (engine_op env (AppendResponseBody [NUL]) t) (\<lambda>s5.
           check env kResponseBody StopIteration (finalizeResponseBodyPhase env s5) (\<lambda>s6.
           (Continue, runLoggingPhaseIfNeeded env s6))) else (Continue, t)))"
      if "phase_state t = phase_state ?e" for t
      using empty [OF phases_same [OF that ok]] phases_same [OF that ok] by simp
  qed
qed

lemma phases_response_headers: "phases_ok s \<Longrightarrow> phases_ok (snd (onResponseHeaders env hs eos s))"
proof (cases "transaction s = None \<or> request_body_processed s")
  case True
  assume "phases_ok s"
  with True show ?thesis by (auto simp: onResponseHeaders_def Let_def phases_process_headers)
next
  case False
  assume ok: "phases_ok s"
  have p: "phases_ok (request_body_phase env (activateContext s))"
    using ok False by (simp add: phases_body)
  have "phases_ok (snd (check env kRequestBody StopIteration (request_body_phase env (activateContext s))
      (process_response_headers env hs eos)))"
    by (rule phases_check [OF p], rule phases_process_headers, rule phases_same [OF _ p])
  with ok False show ?thesis by (simp add: onResponseHeaders_def Let_def)
qed

lemma phases_response_body: "phases_ok s \<Longrightarrow> phases_ok (snd (onResponseBody env get n eos s))"
  by (simp add: onResponseBody_def Let_def prod.case_eq_if phases_end_response phases_processed
      split: option.split)

lemma phases_response_trailers: "phases_ok s \<Longrightarrow> phases_ok (snd (onResponseTrailers env n get s))"
  by (simp add: onResponseTrailers_def Let_def prod.case_eq_if phases_processed phases_logging
      phases_finalize split: option.split)

lemma phases_log: "phases_ok s \<Longrightarrow> phases_ok (onLog env s)"
  by (simp add: onLog_def phases_logging)

text \<open>The end of a stream: the phases that were left out, in order.\<close>

definition finish_request :: "'e env \<Rightarrow> 'e stream \<Rightarrow> 'e stream" where
  "finish_request env a = (if \<not> request_body_processed a
      then snd (processIntervention env kRequestBody (request_body_phase env a)) else a)"

definition finish_response :: "'e env \<Rightarrow> 'e stream \<Rightarrow> 'e stream" where
  "finish_response env b = (if \<not> response_body_processed b
      then snd (processIntervention env kResponseBody (finalizeResponseBodyPhase env b)) else b)"

definition finish :: "'e env \<Rightarrow> 'e stream \<Rightarrow> 'e stream" where
  "finish env s = maybeAnnotateExport env
     (runLoggingPhaseIfNeeded env (finish_response env (finish_request env (activateContext s))))"

lemma onDelete_finish:
  "onDelete env s = (let s1 = (if transaction s \<noteq> None then finish env s else s);
      s2 = (if transaction s1 \<noteq> None \<and> \<not> interrupted s1
                then count (countTxAllowed (e_host env)) s1 else s1)
      in s2\<lparr>active := (if active s2 = This then Nobody else active s2), transaction := None\<rparr>)"
  unfolding onDelete_def finish_def finish_request_def finish_response_def Let_def ..

lemma phases_finish: "phases_ok s \<Longrightarrow> transaction s \<noteq> None \<Longrightarrow> phases_ok (finish env s)"
  by (simp add: finish_def finish_response_def finish_request_def phases_logging phases_finalize phases_body)

lemma phases_delete: "phases_ok s \<Longrightarrow> phases_ok (onDelete env s)"
proof -
  have gone: "phases_ok (t\<lparr>active := b, transaction := None\<rparr>) = phases_ok t" for t :: "'a stream" and b
    by (simp add: phases_ok_def phase_state_def)
  assume "phases_ok s"
  then show ?thesis by (simp add: onDelete_finish Let_def gone phases_finish)
qed

lemma phases_callback: "phases_ok s \<Longrightarrow> phases_ok (run_callback env c s)"
  by (cases c) (simp_all add: phases_request_body phases_request_trailers phases_response_headers
      phases_response_body phases_response_trailers phases_log phases_delete)

section \<open>Request headers\<close>

definition fresh :: phase_state where
  "fresh = (False, False, False, False, 0, 0, 0)"

lemma start_fresh: "phase_state (start_request env i ((onCreate (new_stream m []))\<lparr>active := a\<rparr>)) = fresh"
proof -
  have "phase_state ((emit (EngineCall (NewTransaction t)) (activateContext ((onCreate (new_stream m []))\<lparr>active := a\<rparr>)))
      \<lparr>transaction := Some e\<rparr>) = fresh" for t and e :: 'a
    by (simp add: phase_state_def fresh_def emit_def activateContext_def onCreate_def new_stream_def)
  then show ?thesis by (simp add: start_request_def Let_def)
qed

text \<open>A request that passes its headers has run no phase, or, without a body, all it needs.\<close>

lemma phases_no_body:
  assumes "phase_state s8 = fresh"
  shows "phases_ok (snd (check env kRequestBody StopIteration (request_body_phase env s8)
      (\<lambda>s9. (Continue, runLoggingPhaseIfNeeded env s9)))) \<and>
    transaction (snd (check env kRequestBody StopIteration (request_body_phase env s8)
      (\<lambda>s9. (Continue, runLoggingPhaseIfNeeded env s9)))) \<noteq> None"
proof -
  have b: "phase_state (request_body_phase env s8) = (False, True, False, False, 1, 0, 0)"
    using ps_body_phase assms by (force simp: fresh_def)
  have l: "phase_state (runLoggingPhaseIfNeeded env s9) = (False, True, False, True, 1, 0, 1)"
    if "phase_state s9 = (False, True, False, False, 1, 0, 0)" for s9
    using ps_logging [OF that, of env] by simp
  have "phase_ok (phase_state (snd (check env kRequestBody StopIteration (request_body_phase env s8)
      (\<lambda>s9. (Continue, runLoggingPhaseIfNeeded env s9))))) \<and>
    \<not> fst (phase_state (snd (check env kRequestBody StopIteration (request_body_phase env s8)
      (\<lambda>s9. (Continue, runLoggingPhaseIfNeeded env s9)))))"
    by (rule check_phases [where R = "\<lambda>p. phase_ok p \<and> \<not> fst p", OF b]) (simp_all add: l)
  then show ?thesis by (simp add: phases_ok_def phase_state_def)
qed

definition started :: "'e stream \<Rightarrow> bool" where
  "started s \<longleftrightarrow> phases_ok s \<and> transaction s \<noteq> None"

lemma started_fresh: "phase_state s = fresh \<Longrightarrow> started s"
  by (simp add: started_def phases_ok_def phase_state_def fresh_def)

lemma started_check:
  assumes "phase_state s = fresh" "\<And>s'. phase_state s' = fresh \<Longrightarrow> started (snd (rest s'))"
  shows "started (snd (check env ph stop s rest))"
proof -
  have st: "started t = (phase_ok (phase_state t) \<and> \<not> fst (phase_state t))" for t :: "'a stream"
    by (simp add: started_def phases_ok_def phase_state_def)
  show ?thesis unfolding st
    by (rule check_phases [where R = "\<lambda>p. phase_ok p \<and> \<not> fst p", OF assms(1)])
      (use assms st started_fresh in \<open>auto simp: fresh_def\<close>)
qed

lemma started_headers:
  assumes "e_ready env"
  shows "started (snd (onRequestHeaders env i eos ((onCreate (new_stream m []))\<lparr>active := a\<rparr>)))"
proof -
  have loop: "phase_state (fst (request_headers_loop env hs (s4, 0, False, False))) = phase_state s4" for hs s4
    by (simp add: ps_request_loop)
  have tail: "started (snd (check env kRequestBody StopIteration (request_body_phase env s8)
      (\<lambda>s9. (Continue, runLoggingPhaseIfNeeded env s9))))" if "phase_state s8 = fresh" for s8
    using phases_no_body [OF that, of env] by (simp add: started_def)
  have last: "started (snd (if c then check env kRequestBody StopIteration (request_body_phase env s8)
      (\<lambda>s9. (Continue, runLoggingPhaseIfNeeded env s9)) else (Continue, s8)))" if "phase_state s8 = fresh" for c s8
    using tail [OF that] started_fresh [OF that] by simp
  have host: "phase_state (if c then add_host_header env i s5 else s5) = phase_state s5" for c s5 by simp
  show ?thesis
    unfolding onRequestHeaders_def Let_def prod.case_eq_if
    using assms by (simp only: not_True_eq_False if_False)
      (intro started_check last; simp add: start_fresh loop host connection_call_def)
qed

lemma phases_request_headers: "phases_ok (snd (onRequestHeaders env i eos ((onCreate (new_stream m []))\<lparr>active := a\<rparr>)))"
proof (cases "e_ready env")
  case False
  then show ?thesis
    by (simp add: onRequestHeaders_def phases_ok_def phase_state_def onCreate_def new_stream_def)
qed (simp add: started_headers [unfolded started_def])

lemma phases_others: "phases_ok (s\<lparr>met := m, active := a\<rparr>) = phases_ok s"
  by (simp add: phases_ok_def phase_state_def)

lemma reachable_phases: "reachable env s \<Longrightarrow> phases_ok s"
  by (induction rule: reachable.induct) (simp_all add: phases_request_headers phases_callback phases_others)

lemma ps_finish:
  assumes "phase_state s = (False, rb, sb, lg, n2, n4, n5)" "phases_ok s"
  shows "phase_state (finish env s) = (False, True, True, True, 1, if sb then n4 else 1, 1)"
proof -
  have ok: "phase_ok (False, rb, sb, lg, n2, n4, n5)" using assms by (simp add: phases_ok_def)
  let ?a = "activateContext s"
  have a: "phase_state ?a = (False, rb, sb, lg, n2, n4, n5)" using assms by simp
  then have rb: "request_body_processed ?a = rb" by (simp add: phase_state_def)
  have b: "phase_state (finish_request env ?a) = (False, True, sb, lg, 1, n4, n5)"
    using ps_body_phase [OF a, of env] a rb ok by (auto simp: finish_request_def)
  then have sb: "response_body_processed (finish_request env ?a) = sb" by (simp add: phase_state_def)
  have c: "phase_state (finish_response env (finish_request env ?a)) =
      (False, True, True, lg, 1, if sb then n4 else 1, n5)"
    using ps_finalize [OF b, of env] b sb ok by (auto simp: finish_response_def)
  show ?thesis using ps_logging [OF c, of env] ok by (auto simp: finish_def)
qed

section \<open>Properties\<close>

text \<open>
  C4: whatever callbacks the host makes, in whatever order and however often,
  the request-body phase, the response-body phase and the logging phase of a transaction run at
  most once each.
\<close>

theorem phases_once:
  assumes "reachable env s"
  shows "calls ProcessRequestBody (tr s) \<le> 1 \<and> calls ProcessResponseBody (tr s) \<le> 1 \<and>
    calls ProcessLogging (tr s) \<le> 1"
  using reachable_phases [OF assms] by (auto simp: phases_ok_def phase_state_def split: if_splits)

lemma phases_once_witness: "calls ProcessRequestBody (tr demo_stream) \<le> 1"
  using phases_once [OF demo_reachable] by blast

text \<open>
  C8: however the stream ended (reset, block, missing callbacks), when it is
  deleted the request-body phase and the logging phase have run exactly once, the response-body
  phase has run or was cut off by an interruption, and the transaction is released.
\<close>

theorem delete_completes:
  assumes "reachable env s" "transaction s \<noteq> None"
  shows "calls ProcessRequestBody (tr (onDelete env s)) = 1 \<and>
    calls ProcessLogging (tr (onDelete env s)) = 1 \<and>
    request_body_processed (onDelete env s) \<and> response_body_processed (onDelete env s) \<and>
    (\<not> response_body_processed s \<longrightarrow> calls ProcessResponseBody (tr (onDelete env s)) = 1) \<and>
    transaction (onDelete env s) = None"
proof -
  obtain rb sb lg n2 n4 n5 where s: "phase_state s = (False, rb, sb, lg, n2, n4, n5)"
    using assms(2) by (simp add: phase_state_def)
  have f: "phase_state (finish env s) = (False, True, True, True, 1, if sb then n4 else 1, 1)"
    by (rule ps_finish [OF s reachable_phases [OF assms(1)]])
  have gone: "phase_state (t\<lparr>active := b, transaction := None\<rparr>) =
      (case phase_state t of (x, y) \<Rightarrow> (True, y))" for t :: "'a stream" and b by (simp add: phase_state_def)
  have "phase_state (onDelete env s) = (True, True, True, True, 1, if sb then n4 else 1, 1)"
    using assms(2) by (simp add: onDelete_finish Let_def gone f)
  then show ?thesis using s by (simp add: phase_state_def)
qed

lemma delete_completes_witness: "calls ProcessLogging (tr (onDelete demo_env demo_stream)) = 1"
proof -
  have "started demo_stream"
    unfolding demo_stream_def by (rule started_headers) (simp add: demo_env_def)
  from delete_completes [OF demo_reachable] this show ?thesis by (simp add: started_def)
qed

end
