(* ===== verification/Filter_Order.thy ===== *)
theory Filter_Order
  imports Filter_Phases "HOL-Library.Sublist"
begin

text \<open>
  The order of the phases: the engine never sees the response headers before the request-body
  phase has run, whichever callbacks the host leaves out.
\<close>

section \<open>Traces in order\<close>

fun is_headers :: "effect \<Rightarrow> bool" where
  "is_headers (EngineCall (ProcessResponseHeaders i t)) = True"
| "is_headers _ = False"

definition body_ran :: "trace \<Rightarrow> bool" where
  "body_ran t \<longleftrightarrow> EngineCall ProcessRequestBody \<in> set t"

lemma calls_none: "calls c t = 0 \<longleftrightarrow> EngineCall c \<notin> set t"
  by (auto simp: calls_def filter_empty_conv)

lemma body_ran_calls: "body_ran t \<longleftrightarrow> calls ProcessRequestBody t \<noteq> 0"
  by (simp add: body_ran_def calls_none)

fun in_order :: "bool \<Rightarrow> trace \<Rightarrow> bool" where
  "in_order seen [] = True"
| "in_order seen (e # t) = ((is_headers e \<longrightarrow> seen) \<and> in_order (seen \<or> e = EngineCall ProcessRequestBody) t)"

lemma in_order_append: "in_order seen (t @ u) \<longleftrightarrow> in_order seen t \<and> in_order (seen \<or> body_ran t) u"
  by (induction t arbitrary: seen) (auto simp: body_ran_def eq_commute [of "EngineCall ProcessRequestBody"])

lemma in_order_seen [simp]: "in_order True t"
  by (induction t) simp_all

lemma in_order_none: "list_all (\<lambda>e. \<not> is_headers e) t \<Longrightarrow> in_order seen t"
  by (induction t arbitrary: seen) simp_all

lemma metric_no_headers: "metric_effect e \<Longrightarrow> \<not> is_headers e"
  by (cases e) (simp_all add: metric_effect_def)

section \<open>Before and after the request-body phase\<close>

fun gives_headers :: "engine_call \<Rightarrow> bool" where
  "gives_headers (ProcessResponseHeaders i t) = True"
| "gives_headers _ = False"

lemma gives_headers_iff: "is_headers (EngineCall c) = gives_headers c"
  by (cases c) simp_all

lemma gives_headers_watchable: "gives_headers c \<Longrightarrow> watchable c"
  by (cases c) simp_all

text \<open>Before it, only the processing of the response headers is watched.\<close>

interpretation before: stream_replies env "\<lambda>e. \<not> is_headers e"
  "\<lambda>s. list_all (\<lambda>e. \<not> is_headers e) (tr s)" gives_headers True
  for env :: "'e env"
proof unfold_locales
  show "list_all (\<lambda>e. \<not> is_headers e) (tr (stashExportMatch event rule_id phase sev d msg data s))"
    if "list_all (\<lambda>e. \<not> is_headers e) (tr s)" for s :: "'e stream" and event rule_id phase sev d msg data
    using that by (simp add: stashExportMatch_def Let_def split: option.split)
qed (simp_all add: metric_no_headers gives_headers_iff gives_headers_watchable)

text \<open>After it, anything may follow.\<close>

definition after_body :: "'e stream \<Rightarrow> bool" where
  "after_body s \<longleftrightarrow> body_ran (tr s) \<and> in_order False (tr s)"

interpretation after: stream_contract env "\<lambda>_. True" after_body "\<lambda>_. False" True
  for env :: "'e env"
proof unfold_locales
  show "after_body (stashExportMatch event rule_id phase sev d msg data s)" if "after_body s"
    for s :: "'e stream" and event rule_id phase sev d msg data
    using that by (simp add: after_body_def stashExportMatch_def Let_def split: option.split)
qed (auto simp: after_body_def in_order_append body_ran_def)

section \<open>Every callback keeps the order\<close>

definition ordered :: "'e stream \<Rightarrow> bool" where
  "ordered s \<longleftrightarrow> list_all (\<lambda>e. \<not> is_headers e) (tr s) \<or> after_body s"

lemma ordered_in_order: "ordered s \<Longrightarrow> in_order False (tr s)"
  by (auto simp: ordered_def after_body_def in_order_none)

lemma phases_body_ran: "phases_ok s \<Longrightarrow> request_body_processed s \<Longrightarrow> body_ran (tr s)"
  by (simp add: body_ran_calls phases_ok_def phase_state_def)

lemma ordered_response_headers:
  assumes "ordered s" "phases_ok s"
  shows "ordered (snd (onResponseHeaders env hs eos s))"
proof (cases "transaction s = None")
  case True
  then show ?thesis using assms by (simp add: onResponseHeaders_def)
next
  case False
  let ?a = "activateContext s"
  let ?b = "request_body_phase env ?a"
  obtain e where e: "transaction s = Some e" using False by blast
  have a: "ordered ?a" using assms(1) by (simp add: ordered_def after_body_def activateContext_def)
  show ?thesis
  proof (cases "request_body_processed s")
    case True
    then have "after_body ?a"
      using phases_body_ran [of ?a] assms(2) ordered_in_order [OF a] by (simp add: after_body_def)
    then have "after_body (snd (process_response_headers env hs eos ?a))"
      by (rule after.I_process_headers [rotated 2]) simp_all
    with True e show ?thesis by (simp add: onResponseHeaders_def Let_def ordered_def)
  next
    case no: False
    have "body_ran (tr ?b)"
    proof (rule phases_body_ran)
      show "phases_ok ?b" using assms(2) False no by (intro phases_body) simp_all
      show "request_body_processed ?b" by (simp add: request_body_phase_def)
    qed
    moreover have "in_order False (tr ?b)"
      using a before.I_body_phase [of ?a env] after.I_body_phase [of ?a env]
      by (auto simp: ordered_def in_order_none after_body_def)
    ultimately have "after_body ?b" by (simp add: after_body_def)
    then have "after_body (snd (check env kRequestBody StopIteration ?b (process_response_headers env hs eos)))"
      by (rule after.I_check) (simp add: after.I_process_headers)
    with no e show ?thesis by (simp add: onResponseHeaders_def Let_def ordered_def)
  qed
qed

lemma ordered_callback:
  assumes "ordered s" "phases_ok s"
  shows "ordered (run_callback env c s)"
proof (cases "\<exists>hs eos. c = ResponseHeaders hs eos")
  case True
  then show ?thesis using ordered_response_headers [OF assms] by auto
next
  case False
  then show ?thesis
    using assms(1) before.I_other_callback [of s c env] after.I_callback [of s env c]
    by (auto simp: ordered_def)
qed

lemma reachable_ordered: "reachable env s \<Longrightarrow> ordered s"
proof (induction rule: reachable.induct)
  case (created h i eos a m)
  have "list_all (\<lambda>e. \<not> is_headers e) (tr (snd (onRequestHeaders (env\<lparr>e_host := h\<rparr>) i eos ((onCreate (new_stream m []))\<lparr>active := a\<rparr>))))"
    by (rule before.I_request_headers) (simp add: onCreate_def new_stream_def)
  then show ?case by (simp add: ordered_def)
next
  case (called s h c)
  then show ?case by (simp add: ordered_callback reachable_phases)
next
  case (others s m a)
  then show ?case by (simp add: ordered_def after_body_def)
qed

section \<open>The log callback comes too early\<close>

text \<open>A callback only adds to the trace.\<close>

interpretation grows: stream_contract env "\<lambda>_. True" "\<lambda>s. prefix t (tr s)" "\<lambda>_. False" True
  for env :: "'e env" and t
proof unfold_locales
  show "prefix t (tr (stashExportMatch event rule_id phase sev d msg data s))" if "prefix t (tr s)"
    for s :: "'e stream" and event rule_id phase sev d msg data
    using that by (simp add: stashExportMatch_def Let_def split: option.split)
qed (auto simp: prefix_def)

lemma ps_log_callback:
  assumes "phase_state s = (False, rb, sb, False, n2, n4, n5)"
  shows "phase_state (onLog env s) = (False, rb, sb, True, n2, n4, n5 + 1)"
proof -
  have "transaction s \<noteq> None" using assms by (simp add: phase_state_def)
  then show ?thesis using ps_logging [of "activateContext s" rb sb False n2 n4 n5 env] assms
    by (simp add: onLog_def)
qed

lemma log_callback_first:
  assumes "reachable env s" "transaction s \<noteq> None" "\<not> request_body_processed s" "\<not> logging_phase_done s"
  shows "\<exists>u. tr (onDelete env (onLog env s)) = tr (onLog env s) @ u \<and>
    EngineCall ProcessLogging \<in> set (tr (onLog env s)) \<and>
    EngineCall ProcessRequestBody \<notin> set (tr (onLog env s)) \<and> EngineCall ProcessRequestBody \<in> set u"
proof -
  let ?l = "onLog env s"
  obtain sb n4 where s: "phase_state s = (False, False, sb, False, 0, n4, 0)"
    using assms reachable_phases [OF assms(1)] by (auto simp: phases_ok_def phase_state_def)
  from ps_log_callback [OF s] have l: "phase_state ?l = (False, False, sb, True, 0, n4, 1)" by simp
  have ok: "phases_ok ?l" by (rule phases_log [OF reachable_phases [OF assms(1)]])
  have d: "calls ProcessRequestBody (tr (onDelete env ?l)) = 1"
  proof -
    have t: "transaction ?l \<noteq> None" using l by (simp add: phase_state_def)
    have gone: "phase_state (t\<lparr>active := b, transaction := None\<rparr>) =
      (case phase_state t of (x, y) \<Rightarrow> (True, y))" for t :: "'a stream" and b by (simp add: phase_state_def)
    have "phase_state (onDelete env ?l) = (True, True, True, True, 1, if sb then n4 else 1, 1)"
      using t by (simp add: onDelete_finish Let_def gone ps_finish [OF l ok])
    then show ?thesis by (simp add: phase_state_def)
  qed
  obtain u where u: "tr (onDelete env ?l) = tr ?l @ u"
    using grows.I_delete [of "tr ?l" ?l env, simplified] by (auto simp: prefix_def)
  have "calls ProcessLogging (tr ?l) = 1" "calls ProcessRequestBody (tr ?l) = 0"
    using l by (simp_all add: phase_state_def)
  moreover from this u d have "calls ProcessRequestBody u = 1" by simp
  ultimately have "EngineCall ProcessLogging \<in> set (tr ?l)" "EngineCall ProcessRequestBody \<notin> set (tr ?l)"
    "EngineCall ProcessRequestBody \<in> set u"
    by (metis calls_none zero_neq_one)+
  with u show ?thesis by blast
qed

text \<open>
  The logging phase also runs when the request body has passed, before there is a response: it
  is then done, so that the end of the response does not run it again.
\<close>

lemma logging_before_response:
  assumes "transaction s \<noteq> None" "fst (end_request_body env StopIteration s) = Continue"
  shows "logging_phase_done (snd (end_request_body env StopIteration s))"
proof -
  let ?p = "(request_body_phase env s)\<lparr>request_body_received := 0\<rparr>"
  obtain st s1 where p: "processIntervention env kRequestBody ?p = (st, s1)"
    by (cases "processIntervention env kRequestBody ?p")
  have "phase_state s1 = phase_state ?p" using ps_intervention [of env kRequestBody ?p] p by simp
  moreover obtain sb lg n2 n4 n5 where "phase_state ?p = (False, True, sb, lg, n2, n4, n5)"
    using ps_body_phase [of s "request_body_processed s" _ _ _ _ _ env] assms(1)
    by (simp add: phase_state_def)
  ultimately have "phase_state (runLoggingPhaseIfNeeded env s1) = (False, True, sb, True, n2, n4, if lg then n5 else n5 + 1)"
    using ps_logging [of s1 True sb lg n2 n4 n5 env] by simp
  then show ?thesis using assms(2) by (simp add: end_request_body_def check_def p phase_state_def split: if_splits)
qed

section \<open>A stream with response headers\<close>

lemma check_calm:
  assumes "\<And>x. fst (eng_intervention (e_engine env) x) = None"
  shows "check env ph stop s rest = rest (snd (processIntervention env ph s))"
proof -
  have "fst (processIntervention env ph s) = 0"
    using assms by (simp add: processIntervention_def Let_def prod.case_eq_if split: option.split)
  then show ?thesis by (simp add: check_def prod.case_eq_if)
qed

text \<open>While the engine does not intervene, it is given the response headers.\<close>

lemma process_headers_processed:
  assumes "transaction s \<noteq> None"
  shows "\<exists>e \<in> set (tr (snd (process_response_headers env hs eos s))). is_headers e"
proof -
  obtain s3 bs ch sc where l: "response_headers_loop env (assign [] hs) (s, 0, False, 200) = (s3, bs, ch, sc)"
    by (metis prod.collapse)
  have "phase_state s3 = phase_state s"
    using ps_response_loop [of env "assign [] hs" "(s, 0, False, 200)"] l by simp
  then obtain e where e: "transaction s3 = Some e" using assms by (auto dest: ps_tx)
  let ?c = "ProcessResponseHeaders sc (modsecHttpProtocol (http_version_token s3))"
  let ?e = "engine_op env ?c s3"
  obtain ms e' where c: "eng_call (e_engine env) ?c e = (ms, e')" by (cases "eng_call (e_engine env) ?c e")
  have "prefix (tr s3 @ [EngineCall ?c]) (tr (fold (log_cb env) ms ((emit (EngineCall ?c) s3)\<lparr>transaction := Some e'\<rparr>)))"
    by (rule grows.I_fold [OF grows.I_log_cb]) (simp_all add: emit_def)
  then have "prefix (tr s3 @ [EngineCall ?c]) (tr ?e)" by (simp add: engine_op_def e c)
  then have "prefix (tr s3 @ [EngineCall ?c]) (tr (snd (process_response_headers env hs eos s)))"
    unfolding process_response_headers_def l prod.case Let_def
    by (intro grows.I_check) (auto intro!: grows.I_check grows.I_any_call grows.I_finalize grows.I_logging)
  then have "EngineCall ?c \<in> set (tr (snd (process_response_headers env hs eos s)))"
    by (auto simp: prefix_def)
  then show ?thesis by force
qed

lemma headers_processed:
  assumes "\<And>x. fst (eng_intervention (e_engine env) x) = None" "transaction s \<noteq> None"
  shows "\<exists>t i p u. tr (snd (onResponseHeaders env hs eos s)) = t @ EngineCall (ProcessResponseHeaders i p) # u"
proof -
  obtain e0 where e0: "transaction s = Some e0" using assms(2) by blast
  let ?a = "activateContext s"
  have "transaction (snd (processIntervention env kRequestBody (request_body_phase env ?a))) \<noteq> None"
    using ps_tx [OF ps_intervention [of env kRequestBody "request_body_phase env ?a"]]
      ps_body_phase [of ?a "request_body_processed s" _ _ _ _ _ env] e0
    by (simp add: phase_state_def)
  from process_headers_processed [OF this]
  have "\<exists>e \<in> set (tr (snd (onResponseHeaders env hs eos s))). is_headers e"
    using process_headers_processed [of ?a env hs eos] e0
    by (cases "request_body_processed s") (simp_all add: onResponseHeaders_def Let_def check_calm [OF assms(1)])
  then obtain e where e: "e \<in> set (tr (snd (onResponseHeaders env hs eos s)))" "is_headers e" by blast
  from e(1) obtain t u where "tr (snd (onResponseHeaders env hs eos s)) = t @ e # u" by (meson split_list)
  moreover obtain i p where "e = EngineCall (ProcessResponseHeaders i p)" using e(2) by (rule is_headers.elims)
  ultimately show ?thesis by blast
qed

definition answered_stream :: "nat stream" where
  "answered_stream = snd (onResponseHeaders calm_env None False calm_stream)"

lemma answered_reachable: "reachable calm_env answered_stream"
  using reachable.called [OF calm_reachable, of "e_host calm_env" "ResponseHeaders None False"]
  by (simp add: answered_stream_def)

section \<open>Properties\<close>

text \<open>
  C10: whatever callbacks the host makes or leaves out, the response
  headers of a transaction are processed only after its request-body phase.
\<close>

theorem response_after_request:
  assumes "reachable env s" "tr s = t @ EngineCall (ProcessResponseHeaders status_code protocol) # u"
  shows "EngineCall ProcessRequestBody \<in> set t"
  using ordered_in_order [OF reachable_ordered [OF assms(1)]] assms(2)
  by (simp add: in_order_append body_ran_def)

lemma response_after_request_witness:
  "\<exists>t i p u. tr answered_stream = t @ EngineCall (ProcessResponseHeaders i p) # u \<and>
     EngineCall ProcessRequestBody \<in> set t"
proof -
  have "started calm_stream" unfolding calm_stream_def
    by (rule started_headers) (simp add: calm_env_def demo_env_def)
  then have "\<exists>t i p u. tr answered_stream = t @ EngineCall (ProcessResponseHeaders i p) # u"
    unfolding answered_stream_def by (intro headers_processed) (simp_all add: calm_env_def started_def)
  then show ?thesis using response_after_request [OF answered_reachable] by blast
qed

end
