(* ===== verification/Filter_Blocking.thy ===== *)
theory Filter_Blocking
  imports Filter_Policies
begin

text \<open>
  Replies and waiting: when a callback stops the stream it has sent exactly one reply, and it
  waits only for more of the body.
\<close>

section \<open>Counting replies\<close>

fun is_reply :: "effect \<Rightarrow> bool" where
  "is_reply (SendLocalResponse n details body headers) = True"
| "is_reply _ = False"

definition replies :: "trace \<Rightarrow> nat" where
  "replies t = length (filter is_reply t)"

lemma replies_simps [simp]:
  "replies [] = 0" "replies (t @ u) = replies t + replies u"
  "replies (e # t) = (if is_reply e then 1 else 0) + replies t"
  by (simp_all add: replies_def)

lemma metric_no_reply: "metric_effect e \<Longrightarrow> \<not> is_reply e"
  by (cases e) (simp_all add: metric_effect_def)

text \<open>No step but the block reply itself changes the number of replies.\<close>

interpretation no_reply: stream_calls env "\<lambda>e. \<not> is_reply e" "\<lambda>s. replies (tr s) = k" "\<lambda>_. False"
  for env :: "'e env" and k
proof unfold_locales
  show "replies (tr (stashExportMatch event rule_id phase sev d msg data s)) = k" if "replies (tr s) = k"
    for s :: "'e stream" and event rule_id phase sev d msg data
    using that by (simp add: stashExportMatch_def Let_def split: option.split)
qed (simp_all add: metric_no_reply)

lemma replies_fields [simp]:
  "replies (tr (activateContext s)) = replies (tr s)"
  by (simp add: activateContext_def)

lemma replies_steps [simp]:
  "replies (tr (engine_op env c s)) = replies (tr s)"
  "replies (tr (request_body_phase env s)) = replies (tr s)"
  "replies (tr (append_request env get n s)) = replies (tr s)"
  "replies (tr (snd (appendBufferedResponseBody env n' get s))) = replies (tr s)"
  "replies (tr (finalizeResponseBodyPhase env s)) = replies (tr s)"
  "replies (tr (runLoggingPhaseIfNeeded env s)) = replies (tr s)"
  "replies (tr (snd (processIntervention env ph s))) = replies (tr s)"
  "replies (tr (maybeAnnotateExport env s)) = replies (tr s)"
  "replies (tr (add_host_header env i s)) = replies (tr s)"
  "replies (tr (start_request env i s)) = replies (tr s)"
  by (rule no_reply.I_any_call no_reply.I_body_phase no_reply.I_any_append
      no_reply.I_finalize no_reply.I_logging no_reply.I_intervention no_reply.I_annotate
      no_reply.I_host no_reply.I_start; simp)+

lemma replies_count: "metric_op f \<Longrightarrow> replies (tr (count f s)) = replies (tr s)"
  by (rule no_reply.I_count) simp_all

lemma replies_loops [simp]:
  "replies (tr (fst (request_headers_loop env hs acc))) = replies (tr (fst acc))"
  "replies (tr (fst (response_headers_loop env hs acc2))) = replies (tr (fst acc2))"
  by (rule no_reply.I_request_loop no_reply.I_response_loop; simp)+

lemma replies_sanitize [simp]: "replies (tr (snd (sanitizeInterruptedResponseBody env n s))) = replies (tr s)"
  by (simp add: sanitizeInterruptedResponseBody_def Let_def emit_def replies_count metric_ops)

section \<open>Stopping and replying go together\<close>

definition stops :: "filter_status \<Rightarrow> bool" where
  "stops st \<longleftrightarrow> st = StopIteration \<or> st = StopIterationNoBuffer"

definition settled :: "nat \<Rightarrow> filter_status \<times> 'e stream \<Rightarrow> bool" where
  "settled k r \<longleftrightarrow> replies (tr (snd r)) = k + (if stops (fst r) then 1 else 0)"

lemma settled_Continue [simp]:
  "settled k (Continue, s) \<longleftrightarrow> replies (tr s) = k"
  "settled k (StopIterationAndBuffer, s) \<longleftrightarrow> replies (tr s) = k"
  by (simp_all add: settled_def stops_def)

lemma settled_check:
  assumes "stops stop" "replies (tr s) = k" "\<And>s'. replies (tr s') = k \<Longrightarrow> settled k (rest s')"
  shows "settled k (check env ph stop s rest)"
proof -
  have "replies (tr (sendBlockLocalResponse env st s')) = Suc (replies (tr s'))" for st and s' :: "'a stream"
    by (simp add: sendBlockLocalResponse_def Let_def emit_def)
  then show ?thesis using assms by (simp add: check_def prod.case_eq_if settled_def)
qed

lemma stops_simps [simp]: "stops StopIteration" "stops StopIterationNoBuffer"
  by (simp_all add: stops_def)

lemma settled_request_headers: "settled (replies (tr s)) (onRequestHeaders env i eos s)"
proof -
  have last: "settled k (if c then check env kRequestBody StopIteration (request_body_phase env s8)
      (\<lambda>s9. (Continue, runLoggingPhaseIfNeeded env s9)) else (Continue, s8))"
    if "replies (tr s8) = k" for c s8 k
    using that by (auto intro!: settled_check)
  have started: "settled (replies (tr s)) (onRequestHeaders env i eos s)" if "e_ready env"
    unfolding onRequestHeaders_def Let_def prod.case_eq_if
    using that by (simp only: not_True_eq_False if_False) (intro settled_check last; simp)
  then show ?thesis by (cases "e_ready env") (simp_all add: onRequestHeaders_def)
qed

lemma settled_end_request: "stops stop \<Longrightarrow> settled (replies (tr s)) (end_request_body env stop s)"
  unfolding end_request_body_def by (intro settled_check) simp_all

lemma settled_request_body: "settled (replies (tr s)) (onRequestBody env get n eos s)"
  using settled_end_request [of StopIterationNoBuffer "append_request env get n (activateContext s)" env]
  by (simp add: onRequestBody_def Let_def)

lemma settled_request_trailers: "settled (replies (tr s)) (onRequestTrailers env n get s)"
proof -
  have "replies (tr (appendBufferedRequestBody env n get t)) = replies (tr t)" for t
    by (simp add: appendBufferedRequestBody_def split: option.split)
  then show ?thesis
    using settled_end_request [of StopIteration "appendBufferedRequestBody env n get (activateContext s)" env]
    by (simp add: onRequestTrailers_def)
qed

lemma settled_response_headers: "settled (replies (tr s)) (onResponseHeaders env hs eos s)"
proof -
  have last: "settled k (if c then check env kResponseBody StopIteration (engine_op env (AppendResponseBody [NUL]) s4)
      (\<lambda>s5. check env kResponseBody StopIteration (finalizeResponseBodyPhase env s5)
      (\<lambda>s6. (Continue, runLoggingPhaseIfNeeded env s6))) else (Continue, s4))"
    if "replies (tr s4) = k" for c s4 k
    using that by (auto intro!: settled_check)
  have p: "settled k (process_response_headers env hs eos s2)" if "replies (tr s2) = k" for s2 k
    unfolding process_response_headers_def Let_def prod.case_eq_if
    using that by (intro settled_check last; simp)
  show ?thesis
    by (auto simp: onResponseHeaders_def Let_def intro!: settled_check p)
qed

text \<open>The callbacks on the response body never stop the stream.\<close>

lemma fst_sanitize [simp]: "fst (sanitizeInterruptedResponseBody env n s) = Continue"
  by (simp add: sanitizeInterruptedResponseBody_def Let_def)

lemma settled_sanitize [simp]:
  "settled k (sanitizeInterruptedResponseBody env n s) \<longleftrightarrow> replies (tr s) = k"
  by (simp add: settled_def stops_def)

lemma settled_end_response: "settled (replies (tr s)) (end_response_body env n s)"
  by (simp add: end_response_body_def prod.case_eq_if)

lemma settled_response_body: "settled (replies (tr s)) (onResponseBody env get n eos s)"
proof -
  have e: "settled k (end_response_body env n t)" if "replies (tr t) = k" for t k
    using settled_end_response [of t env n] that by simp
  show ?thesis
    by (simp add: onResponseBody_def Let_def prod.case_eq_if e split: option.split)
qed

lemma settled_response_trailers: "settled (replies (tr s)) (onResponseTrailers env n get s)"
  by (simp add: onResponseTrailers_def Let_def prod.case_eq_if split: option.split)

lemma replies_log: "replies (tr (onLog env s)) = replies (tr s)"
  by (simp add: onLog_def)

lemma replies_delete: "replies (tr (onDelete env s)) = replies (tr s)"
  by (simp add: onDelete_def Let_def replies_count metric_ops)

lemmas settled_parts = settled_request_body [unfolded settled_def] settled_request_trailers [unfolded settled_def]
  settled_response_headers [unfolded settled_def] settled_response_body [unfolded settled_def]
  settled_response_trailers [unfolded settled_def]

lemma settled_callback:
  "replies (tr (run_callback env c s)) = replies (tr s) +
     (if \<exists>st. callback_status env c s = Some st \<and> stops st then 1 else 0)"
  by (cases c) (simp_all add: settled_parts replies_log replies_delete)

section \<open>Waiting\<close>

lemma fst_check: "fst (check env ph stop s rest) = stop \<or> (\<exists>s'. fst (check env ph stop s rest) = fst (rest s'))"
  by (simp add: check_def prod.case_eq_if) blast

lemma end_request_decides:
  "fst (end_request_body env stop s) = Continue \<or> fst (end_request_body env stop s) = stop"
  using fst_check [of env kRequestBody stop "(request_body_phase env s)\<lparr>request_body_received := 0\<rparr>"
      "\<lambda>s1. (Continue, runLoggingPhaseIfNeeded env s1)"]
  by (auto simp: end_request_body_def)

lemma end_response_decides: "fst (end_response_body env n s) = Continue"
  by (simp add: end_response_body_def prod.case_eq_if)

lemma request_decides:
  "fst (onRequestBody env get n True s) \<in> {Continue, StopIterationNoBuffer}"
  "fst (onRequestTrailers env m get s) \<in> {Continue, StopIteration}"
  by (simp_all add: onRequestBody_def onRequestTrailers_def Let_def end_request_decides)

lemma response_decides:
  "fst (onResponseBody env get n True s) = Continue" "fst (onResponseTrailers env m get s) = Continue"
proof -
  have if_eq: "fst (if c then x else y) = Continue" if "fst x = Continue" "fst y = Continue"
    for c and x y :: "filter_status \<times> 'a stream" using that by simp
  have opt_eq: "fst (case m of None \<Rightarrow> x | Some t \<Rightarrow> f t) = Continue"
    if "fst x = Continue" "\<And>t. fst (f t) = Continue" for m :: "string option" and x and f :: "string \<Rightarrow> filter_status \<times> 'a stream"
    using that by (cases m) simp_all
  show "fst (onResponseBody env get n True s) = Continue"
    unfolding onResponseBody_def Let_def prod.case_eq_if not_True_eq_False if_False
    by (intro if_eq opt_eq fst_sanitize end_response_decides fst_conv)
  show "fst (onResponseTrailers env m get s) = Continue"
    unfolding onResponseTrailers_def Let_def prod.case_eq_if by (intro if_eq fst_conv)
qed

section \<open>Properties\<close>

text \<open>
  C5: a callback stops the stream exactly when it has sent a reply, and it
  sends at most one: no request is left hanging without an answer, and none is answered and
  still passed on.
\<close>

theorem reply_iff_stopped:
  "replies (tr (snd (onRequestHeaders env i eos s))) = replies (tr s) +
     (if stops (fst (onRequestHeaders env i eos s)) then 1 else 0) \<and>
   replies (tr (run_callback env c s)) = replies (tr s) +
     (if \<exists>st. callback_status env c s = Some st \<and> stops st then 1 else 0)"
  by (rule conjI [OF settled_request_headers [unfolded settled_def] settled_callback])

text \<open>
  C34: at the end of a body the filter never asks for more of it: the
  request is passed on or answered, and a response is always passed on.
\<close>

theorem end_of_body_decided:
  "fst (onRequestBody env get n True s) \<in> {Continue, StopIterationNoBuffer} \<and>
   fst (onRequestTrailers env m get s) \<in> {Continue, StopIteration} \<and>
   fst (onResponseBody env get n True s) = Continue \<and>
   fst (onResponseTrailers env m get s) = Continue"
  using request_decides response_decides by blast

end
