(* ===== verification/Filter_Isolation.thy ===== *)
theory Filter_Isolation
  imports Filter_Blocking Filter_Phases
begin

text \<open>
  Streams do not mix. The log callback records a match in the stream the global pointer
  names. A callback makes its stream the active one before it calls the engine, so that every
  match of its transaction is recorded in its own stream, and what it does is independent of
  the stream that was active before.
\<close>

section \<open>Whichever stream was active\<close>

definition at_rest :: "'e stream \<Rightarrow> 'e stream" where
  "at_rest s = s\<lparr>active := Nobody\<rparr>"

lemma activate_any [simp]: "activateContext (s\<lparr>active := b\<rparr>) = activateContext s"
  by (simp add: activateContext_def)

lemma at_rest_any [simp]: "at_rest (s\<lparr>active := b\<rparr>) = at_rest s"
  by (simp add: at_rest_def)

lemma annotate_any:
  "maybeAnnotateExport env (s\<lparr>active := b\<rparr>) = (maybeAnnotateExport env s)\<lparr>active := b\<rparr>"
proof -
  have dist: "(if c then x else y)\<lparr>active := b\<rparr> = (if c then x\<lparr>active := b\<rparr> else y\<lparr>active := b\<rparr>)"
    for c and x y :: "'a stream" by simp
  have same: "export_text env (s\<lparr>active := b\<rparr>) = export_text env s"
    by (simp add: export_text_def Let_def)
  show ?thesis
    unfolding maybeAnnotateExport_def Let_def dist same emit_def by simp
qed

lemma ready_any: "at_rest (onLog env (s\<lparr>active := b\<rparr>)) = at_rest (onLog env s)"
  "at_rest (onDelete env (s\<lparr>active := b\<rparr>)) = at_rest (onDelete env s)"
  by (cases "transaction s"; simp add: onLog_def annotate_any at_rest_def)
    (cases "transaction s"; simp add: onDelete_def at_rest_def)

lemma same_result:
  assumes "transaction s = None \<Longrightarrow> snd (f s) = s \<and> fst (f s) = Continue \<and>
      snd (f (s\<lparr>active := b\<rparr>)) = s\<lparr>active := b\<rparr> \<and> fst (f (s\<lparr>active := b\<rparr>)) = Continue"
    and "\<And>e. transaction s = Some e \<Longrightarrow> f (s\<lparr>active := b\<rparr>) = f s"
  shows "at_rest (snd (f (s\<lparr>active := b\<rparr>))) = at_rest (snd (f s)) \<and> fst (f (s\<lparr>active := b\<rparr>)) = fst (f s)"
  using assms by (cases "transaction s") simp_all

lemma any_request_body:
  "at_rest (snd (onRequestBody env get n eos (s\<lparr>active := b\<rparr>))) = at_rest (snd (onRequestBody env get n eos s)) \<and>
   fst (onRequestBody env get n eos (s\<lparr>active := b\<rparr>)) = fst (onRequestBody env get n eos s)"
  by (rule same_result [where f = "onRequestBody env get n eos"]) (simp_all add: onRequestBody_def)

lemma any_response_headers:
  "at_rest (snd (onResponseHeaders env hs eos (s\<lparr>active := b\<rparr>))) = at_rest (snd (onResponseHeaders env hs eos s)) \<and>
   fst (onResponseHeaders env hs eos (s\<lparr>active := b\<rparr>)) = fst (onResponseHeaders env hs eos s)"
  by (rule same_result [where f = "onResponseHeaders env hs eos"]) (simp_all add: onResponseHeaders_def)

lemma any_response_body:
  "at_rest (snd (onResponseBody env get n eos (s\<lparr>active := b\<rparr>))) = at_rest (snd (onResponseBody env get n eos s)) \<and>
   fst (onResponseBody env get n eos (s\<lparr>active := b\<rparr>)) = fst (onResponseBody env get n eos s)"
  by (rule same_result [where f = "onResponseBody env get n eos"]) (simp_all add: onResponseBody_def)

lemma any_trailers:
  "at_rest (snd (onRequestTrailers env m get (s\<lparr>active := b\<rparr>))) = at_rest (snd (onRequestTrailers env m get s)) \<and>
   fst (onRequestTrailers env m get (s\<lparr>active := b\<rparr>)) = fst (onRequestTrailers env m get s)"
  "at_rest (snd (onResponseTrailers env m get (s\<lparr>active := b\<rparr>))) = at_rest (snd (onResponseTrailers env m get s)) \<and>
   fst (onResponseTrailers env m get (s\<lparr>active := b\<rparr>)) = fst (onResponseTrailers env m get s)"
  by (cases "transaction s"; simp add: onRequestTrailers_def)
    (cases "transaction s"; simp add: onResponseTrailers_def)

lemma callback_any_active: "at_rest (run_callback env c (s\<lparr>active := b\<rparr>)) = at_rest (run_callback env c s) \<and>
    callback_status env c (s\<lparr>active := b\<rparr>) = callback_status env c s"
  by (cases c) (simp_all add: ready_any any_request_body any_response_headers any_response_body any_trailers)

text \<open>The request headers make the stream active too.\<close>

lemma any_request_headers:
  "at_rest (snd (onRequestHeaders env i eos (s\<lparr>active := b\<rparr>))) = at_rest (snd (onRequestHeaders env i eos s)) \<and>
   fst (onRequestHeaders env i eos (s\<lparr>active := b\<rparr>)) = fst (onRequestHeaders env i eos s)"
proof (cases "e_ready env")
  case True
  have "start_request env i (s\<lparr>active := b\<rparr>) = start_request env i s" by (simp add: start_request_def)
  then show ?thesis using True by (simp add: onRequestHeaders_def)
qed (simp add: onRequestHeaders_def)

lemma at_rest_tr: "at_rest s = at_rest t \<Longrightarrow> tr s = tr t"
proof -
  assume "at_rest s = at_rest t"
  then have "tr (at_rest s) = tr (at_rest t)" by simp
  then show ?thesis by (simp add: at_rest_def)
qed

section \<open>No match goes to another stream\<close>

fun is_foreign :: "effect \<Rightarrow> bool" where
  "is_foreign (ForeignMatch rm) = True"
| "is_foreign _ = False"

lemma metric_not_foreign: "metric_effect e \<Longrightarrow> \<not> is_foreign e"
  by (cases e) (simp_all add: metric_effect_def)

definition at_home :: "'e stream \<Rightarrow> bool" where
  "at_home s \<longleftrightarrow> active s = This \<and> list_all (\<lambda>e. \<not> is_foreign e) (tr s)"

interpretation home: stream_replies env "\<lambda>e. \<not> is_foreign e" at_home "\<lambda>_. False" True
  for env :: "'e env"
proof unfold_locales
  show "at_home (stashExportMatch event rule_id phase sev d msg data s)" if "at_home s"
    for s :: "'e stream" and event rule_id phase sev d msg data
    using that by (simp add: at_home_def stashExportMatch_def Let_def split: option.split)
qed (simp_all add: at_home_def metric_not_foreign)

lemma home_finish: "at_home s \<Longrightarrow> at_home (finish env s)"
  unfolding finish_def finish_response_def finish_request_def
  by (simp add: home.I_annotate home.I_logging home.I_intervention home.I_finalize home.I_body_phase
      home.I_activate)

lemma home_delete: "at_home s \<Longrightarrow> list_all (\<lambda>e. \<not> is_foreign e) (tr (onDelete env s))"
proof -
  assume h: "at_home s"
  have k: "at_home t \<Longrightarrow> at_home (count (countTxAllowed (e_host env)) t)" for t :: "'a stream"
    by (rule home.I_count [OF metric_ops(2)])
  show ?thesis
    using h home_finish [OF h, of env] k [OF h] k [OF home_finish [OF h, of env]]
    by (simp add: onDelete_finish Let_def at_home_def)
qed

lemma at_home_tr: "at_home s \<Longrightarrow> list_all (\<lambda>e. \<not> is_foreign e) (tr s)"
  by (simp add: at_home_def)

lemma home_callback:
  assumes "at_home s"
  shows "list_all (\<lambda>e. \<not> is_foreign e) (tr (run_callback env c s))"
proof (cases c)
  case Delete
  then show ?thesis using home_delete [OF assms] by simp
qed (simp_all add: assms at_home_tr home.I_request_body home.I_request_trailers home.I_response_headers
    home.I_response_body home.I_response_trailers home.I_log)

text \<open>The same from any stream: it does what it does when it is the active one.\<close>

lemma callback_not_foreign:
  assumes "list_all (\<lambda>e. \<not> is_foreign e) (tr s)"
  shows "list_all (\<lambda>e. \<not> is_foreign e) (tr (run_callback env c s))"
proof -
  have "at_home (s\<lparr>active := This\<rparr>)" using assms by (simp add: at_home_def)
  from home_callback [OF this, of env c] callback_any_active [where env = env and c = c and s = s and b = This, THEN conjunct1, THEN at_rest_tr]
  show ?thesis by simp
qed

lemma reachable_not_foreign: "reachable env s \<Longrightarrow> list_all (\<lambda>e. \<not> is_foreign e) (tr s)"
proof (induction rule: reachable.induct)
  case (created h i eos a m)
  let ?s = "onCreate (new_stream m []) :: 'a stream"
  have "at_home (?s\<lparr>active := This\<rparr>)" by (simp add: at_home_def onCreate_def new_stream_def)
  then have "list_all (\<lambda>e. \<not> is_foreign e)
      (tr (snd (onRequestHeaders (env\<lparr>e_host := h\<rparr>) i eos (?s\<lparr>active := This\<rparr>))))"
    by (intro at_home_tr home.I_request_headers)
  moreover have "tr (snd (onRequestHeaders (env\<lparr>e_host := h\<rparr>) i eos (?s\<lparr>active := a\<rparr>))) =
      tr (snd (onRequestHeaders (env\<lparr>e_host := h\<rparr>) i eos (?s\<lparr>active := This\<rparr>)))"
    using any_request_headers [where env = "env\<lparr>e_host := h\<rparr>" and i = i and eos = eos and s = "?s\<lparr>active := This\<rparr>" and b = a, THEN conjunct1, THEN at_rest_tr]
    by simp
  ultimately show ?case by simp
qed (simp_all add: callback_not_foreign)

section \<open>Properties\<close>

text \<open>
  C26: in every run, whichever stream the global pointer named before a
  callback, no match of a stream's transaction is recorded for another stream; and what the
  callbacks do and return, the request headers included, does not depend on that pointer.
\<close>

theorem matches_stay_in_stream:
  assumes "reachable env s"
  shows "list_all (\<lambda>e. \<not> is_foreign e) (tr s) \<and>
   at_rest (run_callback env c (s\<lparr>active := a\<rparr>)) = at_rest (run_callback env c s) \<and>
   callback_status env c (s\<lparr>active := a\<rparr>) = callback_status env c s \<and>
   at_rest (snd (onRequestHeaders env i eos (s0\<lparr>active := a\<rparr>))) = at_rest (snd (onRequestHeaders env i eos s0)) \<and>
   fst (onRequestHeaders env i eos (s0\<lparr>active := a\<rparr>)) = fst (onRequestHeaders env i eos s0)"
  using reachable_not_foreign [OF assms] callback_any_active any_request_headers by blast

lemma matches_stay_in_stream_witness: "list_all (\<lambda>e. \<not> is_foreign e) (tr demo_stream)"
  using matches_stay_in_stream [OF demo_reachable] by blast

end
