(* ===== verification/Filter_Bodies.thy ===== *)
theory Filter_Bodies
  imports Filter_Blocking "HOL-Library.Sublist"
begin

text \<open>
  The request body: the engine sees every byte of it once and in order, however the host cuts
  it, although each callback shows the whole buffer so far.
\<close>

section \<open>What the engine was given\<close>

fun appended :: "effect \<Rightarrow> string" where
  "appended (EngineCall (AppendRequestBody t)) = t"
| "appended _ = []"

definition body_of :: "trace \<Rightarrow> string" where
  "body_of t = concat (map appended t)"

lemma body_of_simps [simp]:
  "body_of [] = []" "body_of (t @ u) = body_of t @ body_of u" "body_of (e # t) = appended e @ body_of t"
  by (simp_all add: body_of_def)

lemma metric_appends_nothing: "metric_effect e \<Longrightarrow> appended e = []"
  by (cases e) (simp_all add: metric_effect_def)

fun gives_request :: "engine_call \<Rightarrow> bool" where
  "gives_request (AppendRequestBody t) = True"
| "gives_request _ = False"

lemma appended_call: "\<not> gives_request c \<Longrightarrow> appended (EngineCall c) = []"
  by (cases c) simp_all

lemma gives_watchable: "gives_request c \<Longrightarrow> watchable c"
  by (cases c) simp_all

interpretation body: stream_replies env "\<lambda>e. appended e = []" "\<lambda>s. body_of (tr s) = t" gives_request True
  for env :: "'e env" and t
proof unfold_locales
  show "body_of (tr (stashExportMatch event rule_id phase sev d msg data s)) = t" if "body_of (tr s) = t"
    for s :: "'e stream" and event rule_id phase sev d msg data
    using that by (simp add: stashExportMatch_def Let_def split: option.split)
qed (simp_all add: metric_appends_nothing appended_call gives_watchable)

lemma body_of_engine:
  assumes "transaction s \<noteq> None"
  shows "body_of (tr (engine_op env (AppendRequestBody t) s)) = body_of (tr s) @ t"
proof -
  obtain e where e: "transaction s = Some e" using assms by auto
  obtain ms e' where c: "eng_call (e_engine env) (AppendRequestBody t) e = (ms, e')"
    by (cases "eng_call (e_engine env) (AppendRequestBody t) e")
  let ?s = "(emit (EngineCall (AppendRequestBody t)) s)\<lparr>transaction := Some e'\<rparr>"
  have "body_of (tr ?s) = body_of (tr s) @ t" by (simp add: emit_def)
  then have "body_of (tr (fold (log_cb env) ms ?s)) = body_of (tr s) @ t"
    by (intro body.I_fold body.I_log_cb)
  then show ?thesis by (simp add: engine_op_def e c)
qed

lemma body_of_end: "body_of (tr (snd (end_request_body env stop s))) = body_of (tr s)"
  by (rule body.I_end_request) simp

section \<open>The state of the bodies\<close>

text \<open>What only the body callbacks themselves and the body phases change.\<close>

definition counters :: "'e stream \<Rightarrow> nat \<times> bool \<times> nat \<times> bool \<times> bool \<times> bool" where
  "counters s = (request_body_received s, request_body_processed s, response_body_received s,
     response_body_processed s, response_body_interrupted s, transaction s = None)"

lemma counters_eq:
  "counters s' = counters s \<longleftrightarrow> request_body_received s' = request_body_received s \<and>
     request_body_processed s' = request_body_processed s \<and>
     response_body_received s' = response_body_received s \<and>
     response_body_processed s' = response_body_processed s \<and>
     response_body_interrupted s' = response_body_interrupted s \<and>
     (transaction s' = None \<longleftrightarrow> transaction s = None)"
  by (auto simp: counters_def)

lemma counters_record [simp]: "counters (recordRuleMatch env rm s) = counters s"
  by (simp add: counters_def recordRuleMatch_def Let_def stashExportMatch_def logStructuredEvent_def
      emit_def count_def noteDisruptiveRule_def prod.case_eq_if)

lemma counters_log_cb [simp]: "counters (log_cb env m s) = counters s"
proof (cases m)
  case None
  then show ?thesis by (simp add: log_cb_def log_event_def counters_def)
next
  case (Some rm)
  then show ?thesis
    by (cases "active s") (simp add: log_cb_def, simp_all add: log_cb_def log_event_def emit_def counters_def)
qed

lemma counters_fold: "(\<And>x s. counters (f x s) = counters s) \<Longrightarrow> counters (fold f ms s) = counters s"
  by (induction ms arbitrary: s) simp_all

lemma counters_engine [simp]: "counters (engine_op env c s) = counters s"
proof (cases "transaction s")
  case (Some e)
  obtain ms e' where c: "eng_call (e_engine env) c e = (ms, e')" by (cases "eng_call (e_engine env) c e")
  have "counters ((emit (EngineCall c) s)\<lparr>transaction := Some e'\<rparr>) = counters s"
    using Some by (simp add: counters_def emit_def)
  then show ?thesis by (simp add: engine_op_def Some c counters_fold)
qed (simp add: engine_op_def)

lemma counters_flush [simp]: "counters (flushNewRuleMessages env s) = counters s"
proof (cases "transaction s")
  case (Some e)
  have "counters (t\<lparr>rules_messages_seen := k\<rparr>) = counters t" for t :: "'a stream" and k
    by (simp add: counters_def)
  then show ?thesis by (simp add: flushNewRuleMessages_def Some Let_def counters_fold)
qed (simp add: flushNewRuleMessages_def)

lemma counters_note [simp]: "counters (snd (note_intervention env ph iv s)) = counters s"
  by (simp add: counters_def note_intervention_def Let_def stashExportMatch_def logStructuredEvent_def
      maybeAnnotateExport_def emit_def count_def prod.case_eq_if)

lemma counters_intervention [simp]: "counters (snd (processIntervention env ph s)) = counters s"
proof (cases "transaction (flushNewRuleMessages env s)")
  case (Some e)
  have "counters ((emit (EngineCall Intervention) (flushNewRuleMessages env s))\<lparr>transaction := Some e'\<rparr>) =
      counters (flushNewRuleMessages env s)" for e'
    using Some by (simp add: counters_def emit_def)
  then show ?thesis
    by (simp add: processIntervention_def Let_def Some split: prod.split option.split)
qed (simp add: processIntervention_def Let_def)

section \<open>Growing buffers\<close>

definition buffer :: "string \<Rightarrow> body_buffer" where
  "buffer b = (\<lambda>start len. Some (take len (drop start b)))"

text \<open>The body up to \<open>b\<close> has been passed on, in pieces that were folded one by one.\<close>

definition passed_on :: "'e env \<Rightarrow> string \<Rightarrow> 'e stream \<Rightarrow> bool" where
  "passed_on env b s \<longleftrightarrow> request_body_received s = length b \<and> \<not> request_body_processed s \<and>
     transaction s \<noteq> None \<and>
     (\<exists>cs. concat cs = b \<and> body_of (tr s) = concat (map (fold_fullwidth env) cs))"

lemma passed_on_append:
  assumes "passed_on env b s" "prefix b b'"
  shows "passed_on env b' (append_request env (buffer b') (length b') s)"
proof -
  obtain r where b': "b' = b @ r" using assms(2) by (auto simp: prefix_def)
  from assms(1) have s: "request_body_received s = length b" "transaction s \<noteq> None" "\<not> request_body_processed s"
    by (simp_all add: passed_on_def)
  obtain cs where cs: "concat cs = b" "body_of (tr s) = concat (map (fold_fullwidth env) cs)"
    using assms(1) by (auto simp: passed_on_def)
  show ?thesis
  proof (cases "r = []")
    case True
    then show ?thesis using assms(1) b' s by (simp add: append_request_def)
  next
    case False
    let ?e = "engine_op env (AppendRequestBody (fold_fullwidth env r)) s"
    have a: "append_request env (buffer b') (length b') s =
        ?e\<lparr>request_body_received := request_body_received ?e + length r\<rparr>"
      using False s by (simp add: append_request_def buffer_def b' Let_def)
    have "counters ?e = counters s" by simp
    then have "request_body_received ?e = length b" "\<not> request_body_processed ?e" "transaction ?e \<noteq> None"
      using s unfolding counters_eq by auto
    then have "request_body_received (append_request env (buffer b') (length b') s) = length b'"
      "\<not> request_body_processed (append_request env (buffer b') (length b') s)"
      "transaction (append_request env (buffer b') (length b') s) \<noteq> None"
      unfolding a by (simp_all add: b')
    moreover have "body_of (tr (append_request env (buffer b') (length b') s)) =
        concat (map (fold_fullwidth env) (cs @ [r]))"
      unfolding a using body_of_engine [OF s(2)] cs by simp
    moreover have "concat (cs @ [r]) = b'" using cs b' by simp
    ultimately show ?thesis unfolding passed_on_def by blast
  qed
qed

lemma passed_on_activate: "passed_on env b s \<Longrightarrow> passed_on env b (activateContext s)"
  by (simp add: passed_on_def activateContext_def)

lemma passed_on_body:
  assumes "passed_on env b s" "prefix b b'"
  shows "passed_on env b' (snd (onRequestBody env (buffer b') (length b') False s))"
    "body_of (tr (snd (onRequestBody env (buffer b') (length b') True s))) =
       body_of (tr (append_request env (buffer b') (length b') (activateContext s)))"
proof -
  from assms(1) have "transaction s \<noteq> None" "\<not> request_body_processed (activateContext s)"
    by (simp_all add: passed_on_def activateContext_def)
  then have "onRequestBody env (buffer b') (length b') eos s =
      (let s2 = append_request env (buffer b') (length b') (activateContext s) in
       if \<not> eos then (StopIterationAndBuffer, s2) else end_request_body env StopIterationNoBuffer s2)" for eos
    by (simp only: onRequestBody_def Let_def if_False)
  with passed_on_append [OF passed_on_activate [OF assms(1)] assms(2)]
  show "passed_on env b' (snd (onRequestBody env (buffer b') (length b') False s))"
    "body_of (tr (snd (onRequestBody env (buffer b') (length b') True s))) =
       body_of (tr (append_request env (buffer b') (length b') (activateContext s)))"
    by (simp_all add: body_of_end Let_def)
qed

text \<open>The callbacks with the buffers \<open>bs\<close>, none of them the last one.\<close>

fun feed :: "'e env \<Rightarrow> string list \<Rightarrow> 'e stream \<Rightarrow> 'e stream" where
  "feed env [] s = s"
| "feed env (b # bs) s = feed env bs (snd (onRequestBody env (buffer b) (length b) False s))"

lemma passed_on_feed:
  "passed_on env b s \<Longrightarrow> sorted_wrt prefix (b # bs) \<Longrightarrow> passed_on env (last (b # bs)) (feed env bs s)"
proof (induction bs arbitrary: b s)
  case (Cons c bs)
  have "prefix b c" "sorted_wrt prefix (c # bs)" using Cons.prems(2) by simp_all
  with Cons.IH [OF passed_on_body(1) [OF Cons.prems(1)]] show ?case by simp
qed simp

section \<open>Properties\<close>

text \<open>
  C6: when the buffers of the body callbacks grow up to the whole
  body, the engine is given the body once, in order and completely: in pieces, each folded as
  the options say, and without folding byte for byte.
\<close>

theorem request_body_complete:
  assumes "transaction s \<noteq> None" "\<not> request_body_processed s" "request_body_received s = 0"
    and "body_of (tr s) = []" "sorted_wrt prefix (bs @ [b])"
  shows "\<exists>cs. concat cs = b \<and>
    body_of (tr (snd (onRequestBody env (buffer b) (length b) True (feed env bs s)))) =
      concat (map (fold_fullwidth env) cs) \<and>
    (\<not> fullwidth_normalize (e_options env) \<longrightarrow> concat (map (fold_fullwidth env) cs) = b)"
proof -
  have "passed_on env [] s"
    using assms by (auto simp: passed_on_def intro!: exI [of _ "[]"])
  then have fed: "passed_on env (last ([] # bs)) (feed env bs s)"
    using assms(5) by (intro passed_on_feed) (simp_all add: sorted_wrt_append)
  have p: "prefix (last ([] # bs)) b"
    using assms(5) by (cases bs rule: rev_cases) (simp_all add: sorted_wrt_append)
  obtain cs where "concat cs = b"
    "body_of (tr (snd (onRequestBody env (buffer b) (length b) True (feed env bs s)))) =
      concat (map (fold_fullwidth env) cs)"
    using passed_on_append [OF passed_on_activate [OF fed] p] passed_on_body(2) [OF fed p]
    by (auto simp: passed_on_def)
  moreover have "map (fold_fullwidth env) cs = cs" if "\<not> fullwidth_normalize (e_options env)"
    using that by (simp add: fold_fullwidth_def map_idI)
  ultimately show ?thesis by metis
qed

lemma request_body_complete_witness:
  "\<exists>cs. concat cs = ''a=1&b=2'' \<and>
    body_of (tr (snd (onRequestBody demo_env (buffer ''a=1&b=2'') (length ''a=1&b=2'') True
      (feed demo_env [''a=1'', ''a=1&b''] ((new_stream new_metrics [])\<lparr>transaction := Some 0\<rparr>))))) =
      concat (map (fold_fullwidth demo_env) cs)"
proof -
  have "sorted_wrt prefix ([''a=1'', ''a=1&b''] @ [''a=1&b=2''])" by simp
  from request_body_complete [OF _ _ _ _ this, of "(new_stream new_metrics [])\<lparr>transaction := Some 0\<rparr>" demo_env]
  show ?thesis by (simp add: new_stream_def) blast
qed

end
