(* ===== verification/Filter_Responses.thy ===== *)
theory Filter_Responses
  imports Filter_Bodies Filter_Order
begin

text \<open>
  The response body: what reaches the client was inspected or has been overwritten. The engine
  sees the body once and in order, up to the point where it intervenes; from then on every
  part of the body is replaced.
\<close>

section \<open>What the engine was given\<close>

fun given :: "effect \<Rightarrow> string" where
  "given (EngineCall (AppendResponseBody t)) = t"
| "given _ = []"

definition response_of :: "trace \<Rightarrow> string" where
  "response_of t = concat (map given t)"

lemma response_of_simps [simp]:
  "response_of [] = []" "response_of (t @ u) = response_of t @ response_of u"
  "response_of (e # t) = given e @ response_of t"
  by (simp_all add: response_of_def)

lemma metric_gives_nothing: "metric_effect e \<Longrightarrow> given e = []"
  by (cases e) (simp_all add: metric_effect_def)

fun gives_response :: "engine_call \<Rightarrow> bool" where
  "gives_response (AppendResponseBody t) = True"
| "gives_response _ = False"

lemma given_call: "\<not> gives_response c \<Longrightarrow> given (EngineCall c) = []"
  by (cases c) simp_all

lemma gives_response_watchable: "gives_response c \<Longrightarrow> watchable c"
  by (cases c) simp_all

interpretation response: stream_replies env "\<lambda>e. given e = []" "\<lambda>s. response_of (tr s) = t"
  gives_response True
  for env :: "'e env" and t
proof unfold_locales
  show "response_of (tr (stashExportMatch event rule_id phase sev d msg data s)) = t" if "response_of (tr s) = t"
    for s :: "'e stream" and event rule_id phase sev d msg data
    using that by (simp add: stashExportMatch_def Let_def split: option.split)
qed (simp_all add: metric_gives_nothing given_call gives_response_watchable)

lemma response_of_kept [simp]:
  "response_of (tr (snd (processIntervention env ph s))) = response_of (tr s)"
  "response_of (tr (snd (sanitizeInterruptedResponseBody env n s))) = response_of (tr s)"
  "response_of (tr (snd (end_response_body env n s))) = response_of (tr s)"
  "response_of (tr (activateContext s)) = response_of (tr s)"
proof -
  show "response_of (tr (snd (processIntervention env ph s))) = response_of (tr s)"
    by (rule response.I_intervention) simp
  show "response_of (tr (snd (sanitizeInterruptedResponseBody env n s))) = response_of (tr s)"
    by (rule response.I_sanitize) simp_all
  show "response_of (tr (snd (end_response_body env n s))) = response_of (tr s)"
    by (rule response.I_end_response) simp
qed (simp add: activateContext_def)

lemma response_of_engine:
  assumes "transaction s \<noteq> None"
  shows "response_of (tr (engine_op env (AppendResponseBody t) s)) = response_of (tr s) @ t"
proof -
  obtain e where e: "transaction s = Some e" using assms by auto
  obtain ms e' where c: "eng_call (e_engine env) (AppendResponseBody t) e = (ms, e')"
    by (cases "eng_call (e_engine env) (AppendResponseBody t) e")
  let ?s = "(emit (EngineCall (AppendResponseBody t)) s)\<lparr>transaction := Some e'\<rparr>"
  have "response_of (tr ?s) = response_of (tr s) @ t" by (simp add: emit_def)
  then have "response_of (tr (fold (log_cb env) ms ?s)) = response_of (tr s) @ t"
    by (intro response.I_fold response.I_log_cb)
  then show ?thesis by (simp add: engine_op_def e c)
qed

section \<open>One callback\<close>

lemma interrupted_sanitize [simp]:
  "response_body_interrupted (snd (sanitizeInterruptedResponseBody env n s))"
  by (simp add: sanitizeInterruptedResponseBody_def Let_def)

text \<open>The effects that overwrite the \<open>n\<close> bytes of the buffer.\<close>

definition overwrites :: "nat \<Rightarrow> trace" where
  "overwrites n = (if 0 < n then [SetResponseBuffer n kBlocked] else []) @
     [ReplaceResponseHeader ''content-length'' (nat_to_string (length kBlocked))]"

lemma overwritten_sanitize: "suffix (overwrites n) (tr (snd (sanitizeInterruptedResponseBody env n s)))"
  by (auto simp: sanitizeInterruptedResponseBody_def Let_def emit_def overwrites_def suffix_def)

text \<open>
  The two ways in which a response callback may let a part of the body go: it has overwritten
  it, or the whole body was inspected.
\<close>

definition let_go :: "nat \<Rightarrow> 'e stream \<Rightarrow> bool" where
  "let_go n s \<longleftrightarrow> (if response_body_interrupted s then suffix (overwrites n) (tr s) else response_body_processed s)"

lemma let_go_sanitize [simp]: "let_go n (snd (sanitizeInterruptedResponseBody env n s))"
  by (simp add: let_go_def overwritten_sanitize)

lemma sanitize_transaction [simp]:
  "transaction (snd (sanitizeInterruptedResponseBody env n s)) = transaction s"
  by (simp add: sanitizeInterruptedResponseBody_def Let_def emit_def count_def prod.case_eq_if)

lemma counters_logging: "counters (runLoggingPhaseIfNeeded env s) = counters s"
proof -
  have c: "counters (t\<lparr>rules_messages_seen := k, logging_phase_done := b\<rparr>) = counters t"
    "counters (activateContext t) = counters t" for t :: "'a stream" and k b
    by (simp_all add: counters_def activateContext_def)
  show ?thesis by (simp add: runLoggingPhaseIfNeeded_def Let_def c counters_fold)
qed

lemma finalized:
  assumes "transaction s \<noteq> None"
  shows "response_body_processed (finalizeResponseBodyPhase env s)"
    "response_body_interrupted (finalizeResponseBodyPhase env s) = response_body_interrupted s"
  using assms counters_engine [of env ProcessResponseBody s, unfolded counters_eq]
  by (auto simp: finalizeResponseBodyPhase_def)

lemma end_response_lets_go:
  assumes "transaction s \<noteq> None" "\<not> response_body_interrupted s"
  shows "fst (end_response_body env n s) = Continue" "let_go n (snd (end_response_body env n s))"
    "transaction (snd (end_response_body env n s)) \<noteq> None"
proof -
  obtain st s1 where p: "processIntervention env kResponseBody (finalizeResponseBodyPhase env s) = (st, s1)"
    by (cases "processIntervention env kResponseBody (finalizeResponseBodyPhase env s)")
  have "counters s1 = counters (finalizeResponseBodyPhase env s)"
    using counters_intervention [of env kResponseBody "finalizeResponseBodyPhase env s"] p by simp
  then have "response_body_processed (runLoggingPhaseIfNeeded env s1)"
    "\<not> response_body_interrupted (runLoggingPhaseIfNeeded env s1)"
    using counters_logging [of env s1] finalized [OF assms(1), of env] assms(2)
    unfolding counters_eq by auto
  then show "fst (end_response_body env n s) = Continue" "let_go n (snd (end_response_body env n s))"
    by (simp_all add: end_response_body_def p let_go_def overwritten_sanitize)
  have "counters s1 = counters (finalizeResponseBodyPhase env s)"
    using counters_intervention [of env kResponseBody "finalizeResponseBodyPhase env s"] p by simp
  moreover have "transaction (finalizeResponseBodyPhase env s) \<noteq> None"
    using assms(1) counters_engine [of env ProcessResponseBody s, unfolded counters_eq]
    by (auto simp: finalizeResponseBodyPhase_def)
  ultimately have "transaction s1 \<noteq> None" "transaction (runLoggingPhaseIfNeeded env s1) \<noteq> None"
    using counters_logging [of env s1] unfolding counters_eq by auto
  then show "transaction (snd (end_response_body env n s)) \<noteq> None"
    by (simp add: end_response_body_def p del: not_None_eq)
qed

text \<open>What the callback has done when it is not the end of the body, or at the end of it.\<close>

definition body_step :: "nat \<Rightarrow> bool \<Rightarrow> filter_status \<times> 'e stream \<Rightarrow> bool" where
  "body_step n eos r \<longleftrightarrow>
     transaction (snd r) \<noteq> None \<and>
     (if fst r = StopIterationAndBuffer then \<not> eos \<and> \<not> response_body_interrupted (snd r)
      else fst r = Continue \<and> let_go n (snd r))"

lemma body_step_sanitize:
  "transaction s \<noteq> None \<Longrightarrow> body_step n eos (sanitizeInterruptedResponseBody env n s)"
  by (simp add: body_step_def)

lemma body_step_rest:
  assumes "transaction s \<noteq> None" "\<not> response_body_interrupted s"
  shows "body_step n eos (if \<not> eos then (StopIterationAndBuffer, s) else end_response_body env n s)"
  using assms end_response_lets_go [OF assms, where env = env and n = n] by (simp add: body_step_def)

lemma body_step_append:
  assumes "transaction s \<noteq> None" "\<not> response_body_interrupted s"
  shows "body_step n eos (case processIntervention env kResponseBody
      ((engine_op env (AppendResponseBody b) s)\<lparr>response_body_received := k\<rparr>) of (st, s4) \<Rightarrow>
        if st \<noteq> 0 then sanitizeInterruptedResponseBody env n (s4\<lparr>response_body_processed := True\<rparr>)
        else if \<not> eos then (StopIterationAndBuffer, s4) else end_response_body env n s4)"
proof -
  let ?t = "(engine_op env (AppendResponseBody b) s)\<lparr>response_body_received := k\<rparr>"
  obtain st s4 where p: "processIntervention env kResponseBody ?t = (st, s4)"
    by (cases "processIntervention env kResponseBody ?t")
  have "counters s4 = counters ?t"
    using counters_intervention [of env kResponseBody ?t] p by simp
  then have "transaction s4 \<noteq> None" "\<not> response_body_interrupted s4"
    using counters_engine [of env "AppendResponseBody b" s] assms unfolding counters_eq by auto
  with body_step_rest [OF this] show ?thesis unfolding p prod.case by (simp add: body_step_sanitize)
qed

lemma body_step_callback:
  assumes "transaction s \<noteq> None"
  shows "body_step n eos (onResponseBody env get n eos s)"
proof -
  let ?a = "activateContext s"
  let ?rest = "\<lambda>t. if \<not> eos then (StopIterationAndBuffer, t) else end_response_body env n t"
  obtain e where e: "transaction s = Some e" using assms by blast
  have t: "transaction ?a \<noteq> None" using assms by simp
  show ?thesis
  proof (cases "response_body_interrupted ?a \<or> response_body_processed ?a")
    case True
    then show ?thesis by (auto simp: onResponseBody_def Let_def e body_step_def let_go_def overwritten_sanitize activateContext_def)
  next
    case False
    then have i: "\<not> response_body_interrupted ?a" and p: "\<not> response_body_processed ?a" by blast+
    have rest: "body_step n eos (?rest ?a)" using body_step_rest [OF t i] .
    have skip: "body_step n eos (?rest (?a\<lparr>response_body_received := n\<rparr>))"
      by (rule body_step_rest) (use t i in simp_all)
    note app = body_step_append [OF t i, of n eos env]
    show ?thesis
    proof (cases "response_body_received ?a < n")
      case True
      then show ?thesis unfolding onResponseBody_def Let_def
        using i p e app skip
        by (cases "get (response_body_received ?a) (n - response_body_received ?a)")
          (simp_all only: if_True if_False option.case option.distinct simp_thms split: if_split)
    next
      case False': False
      then show ?thesis unfolding onResponseBody_def Let_def
        using i p e rest by (simp only: if_True if_False option.distinct simp_thms)
    qed
  qed
qed

section \<open>Growing buffers\<close>

lemma flags_activate_more [simp]:
  "response_body_interrupted (activateContext s) = response_body_interrupted s"
  "response_body_received (activateContext s) = response_body_received s"
  by (simp_all add: activateContext_def)

lemma interrupted_stays:
  "response_body_interrupted s \<Longrightarrow> response_body_interrupted (snd (onResponseBody env get n eos s))"
  by (simp add: onResponseBody_def Let_def)

text \<open>The body up to \<open>b\<close> has been given to the engine.\<close>

definition inspected :: "string \<Rightarrow> 'e stream \<Rightarrow> bool" where
  "inspected b s \<longleftrightarrow> response_body_received s = length b \<and> \<not> response_body_processed s \<and>
     \<not> response_body_interrupted s \<and> transaction s \<noteq> None \<and> response_of (tr s) = b"

text \<open>One callback with a longer buffer, up to the decision whether more is to come.\<close>

lemma inspected_body:
  assumes "inspected b s" "prefix b b'"
  shows "response_body_interrupted (snd (onResponseBody env (buffer b') (length b') eos s)) \<or>
    (\<exists>t. inspected b' t \<and> onResponseBody env (buffer b') (length b') eos s =
      (if \<not> eos then (StopIterationAndBuffer, t) else end_response_body env (length b') t))"
proof -
  let ?a = "activateContext s"
  let ?rest = "\<lambda>t. if \<not> eos then (StopIterationAndBuffer, t) else end_response_body env (length b') t"
  obtain e where e: "transaction s = Some e" using assms(1) by (auto simp: inspected_def)
  obtain r where b': "b' = b @ r" using assms(2) by (auto simp: prefix_def)
  from assms(1) have a: "inspected b ?a" by (simp add: inspected_def)
  then have f: "response_body_received ?a = length b" "\<not> response_body_processed ?a"
    "\<not> response_body_interrupted ?a" "transaction ?a \<noteq> None" "response_of (tr ?a) = b"
    unfolding inspected_def by blast+
  show ?thesis
  proof (cases "r = []")
    case True
    then have "onResponseBody env (buffer b') (length b') eos s = ?rest ?a"
      unfolding onResponseBody_def Let_def using f e b' by (simp only: if_False if_True simp_thms option.distinct) simp
    with a True b' show ?thesis by auto
  next
    case False
    let ?e = "engine_op env (AppendResponseBody r) ?a"
    let ?t = "?e\<lparr>response_body_received := response_body_received ?e + length r\<rparr>"
    obtain st s4 where p: "processIntervention env kResponseBody ?t = (st, s4)"
      by (cases "processIntervention env kResponseBody ?t")
    have get: "buffer b' (length b) (length b' - length b) = Some r" "length b < length b'"
      using False by (simp_all add: buffer_def b')
    have r: "onResponseBody env (buffer b') (length b') eos s =
        (if st \<noteq> 0 then sanitizeInterruptedResponseBody env (length b') (s4\<lparr>response_body_processed := True\<rparr>)
         else ?rest s4)"
      unfolding onResponseBody_def Let_def f(1) get option.case
      using f e p False get by (simp only: if_False if_True simp_thms option.distinct prod.case)
    have c: "counters s4 = counters ?t" "response_of (tr s4) = response_of (tr ?t)"
      using counters_intervention [of env kResponseBody ?t] p response_of_kept(1) [of env kResponseBody ?t]
      by simp_all
    have "counters ?e = counters ?a" by simp
    with c f b' response_of_engine [OF f(4), of env r] have "inspected b' s4"
      unfolding inspected_def counters_eq by auto
    then show ?thesis unfolding r by (cases "st = 0") auto
  qed
qed

fun feed_response :: "'e env \<Rightarrow> string list \<Rightarrow> 'e stream \<Rightarrow> 'e stream" where
  "feed_response env [] s = s"
| "feed_response env (b # bs) s = feed_response env bs (snd (onResponseBody env (buffer b) (length b) False s))"

lemma interrupted_feed: "response_body_interrupted s \<Longrightarrow> response_body_interrupted (feed_response env bs s)"
  by (induction bs arbitrary: s) (simp_all add: interrupted_stays)

lemma inspected_feed:
  "inspected b s \<Longrightarrow> sorted_wrt prefix (b # bs) \<Longrightarrow>
    response_body_interrupted (feed_response env bs s) \<or> inspected (last (b # bs)) (feed_response env bs s)"
proof (induction bs arbitrary: b s)
  case (Cons c bs)
  let ?s = "snd (onResponseBody env (buffer c) (length c) False s)"
  have p: "prefix b c" "sorted_wrt prefix (c # bs)" using Cons.prems(2) by simp_all
  from inspected_body [OF Cons.prems(1) p(1), of env False]
  have "response_body_interrupted ?s \<or> inspected c ?s" by auto
  then show ?case using Cons.IH [OF _ p(2), of ?s] interrupted_feed [of ?s env bs] by auto
qed simp

section \<open>A buffer that cannot be read\<close>

text \<open>
  When the host does not hand out the buffer, its bytes count as received: at the end of the
  body it goes to the client although the engine was given none of it.
\<close>

lemma unread_body_passes:
  assumes "transaction s = Some e" "\<not> response_body_interrupted s" "\<not> response_body_processed s"
    and "response_body_received s < n"
  shows "onResponseBody env (\<lambda>start len. None) n True s =
      end_response_body env n ((activateContext s)\<lparr>response_body_received := n\<rparr>) \<and>
    response_of (tr (snd (onResponseBody env (\<lambda>start len. None) n True s))) = response_of (tr s)"
  using assms by (simp add: onResponseBody_def Let_def)

section \<open>What is let go\<close>

lemma interrupted_overwrites:
  assumes "transaction s \<noteq> None" "response_body_interrupted s"
  shows "fst (onResponseBody env get n eos s) = Continue \<and>
    suffix (overwrites n) (tr (snd (onResponseBody env get n eos s))) \<and>
    response_body_interrupted (snd (onResponseBody env get n eos s))"
  using assms by (auto simp: onResponseBody_def Let_def overwritten_sanitize fst_sanitize)

lemma feed_transaction: "transaction s \<noteq> None \<Longrightarrow> transaction (feed_response env bs s) \<noteq> None"
proof (induction bs arbitrary: s)
  case (Cons b bs)
  have "body_step (length b) False (onResponseBody env (buffer b) (length b) False s)"
    by (rule body_step_callback [OF Cons.prems])
  then show ?case using Cons.IH by (simp add: body_step_def del: not_None_eq)
qed simp

text \<open>The response-body phase ran on exactly \<open>b\<close>, and the engine was asked afterwards.\<close>

definition inspected_in :: "trace \<Rightarrow> string \<Rightarrow> bool" where
  "inspected_in t b \<longleftrightarrow> (\<exists>u v. t = u @ EngineCall ProcessResponseBody # v \<and> response_of u = b \<and>
     EngineCall Intervention \<in> set v)"

lemma engine_op_grows:
  assumes "transaction s \<noteq> None"
  shows "prefix (tr s @ [EngineCall c]) (tr (engine_op env c s))"
proof -
  obtain e where e: "transaction s = Some e" using assms by auto
  obtain ms e' where c: "eng_call (e_engine env) c e = (ms, e')" by (cases "eng_call (e_engine env) c e")
  have "prefix (tr s @ [EngineCall c]) (tr (fold (log_cb env) ms ((emit (EngineCall c) s)\<lparr>transaction := Some e'\<rparr>)))"
    by (rule grows.I_fold [OF grows.I_log_cb]) (simp_all add: emit_def)
  then show ?thesis by (simp add: engine_op_def e c)
qed

lemma intervention_asked:
  assumes "transaction s \<noteq> None"
  shows "\<exists>t. prefix (tr s) t \<and> prefix (t @ [EngineCall Intervention]) (tr (snd (processIntervention env ph s)))"
proof -
  let ?f = "flushNewRuleMessages env s"
  have "transaction ?f \<noteq> None" using assms counters_flush [of env s, unfolded counters_eq] by auto
  then obtain e where e: "transaction ?f = Some e" by blast
  obtain iv e' where iv: "eng_intervention (e_engine env) e = (iv, e')" by (cases "eng_intervention (e_engine env) e")
  let ?s = "(emit (EngineCall Intervention) ?f)\<lparr>transaction := Some e'\<rparr>"
  have "prefix (tr ?f @ [EngineCall Intervention]) (tr (snd (processIntervention env ph s)))"
    using grows.I_note [of "tr ?f @ [EngineCall Intervention]" ?s env ph]
    by (simp add: processIntervention_def Let_def e iv emit_def split: option.split)
  moreover have "prefix (tr s) (tr ?f)" by (rule grows.I_flush) simp
  ultimately show ?thesis by blast
qed

text \<open>The end of an inspected body.\<close>

lemma inspected_end:
  assumes "inspected b s" "\<not> response_body_interrupted (snd (end_response_body env n s))"
  shows "inspected_in (tr (snd (end_response_body env n s))) b"
proof -
  have s: "transaction s \<noteq> None" "\<not> response_body_processed s" "response_of (tr s) = b"
    using assms(1) by (simp_all add: inspected_def)
  let ?f = "finalizeResponseBodyPhase env s"
  have f: "prefix (tr s @ [EngineCall ProcessResponseBody]) (tr ?f)"
    using engine_op_grows [OF s(1), of ProcessResponseBody env] s by (auto simp: finalizeResponseBodyPhase_def)
  have "transaction ?f \<noteq> None"
    using s(1) counters_engine [of env ProcessResponseBody s, unfolded counters_eq]
    by (auto simp: finalizeResponseBodyPhase_def)
  from intervention_asked [OF this, of env kResponseBody] obtain t where t: "prefix (tr ?f) t"
    "prefix (t @ [EngineCall Intervention]) (tr (snd (processIntervention env kResponseBody ?f)))" by blast
  obtain st s1 where p: "processIntervention env kResponseBody ?f = (st, s1)"
    by (cases "processIntervention env kResponseBody ?f")
  have "st = 0" using assms(2) by (rule contrapos_np) (simp add: end_response_body_def p)
  then have e: "snd (end_response_body env n s) = runLoggingPhaseIfNeeded env s1"
    by (simp add: end_response_body_def p)
  have "prefix (t @ [EngineCall Intervention]) (tr (runLoggingPhaseIfNeeded env s1))"
    using grows.I_logging t(2) p by fastforce
  then obtain w where w: "tr (runLoggingPhaseIfNeeded env s1) = t @ EngineCall Intervention # w"
    by (auto simp: prefix_def)
  obtain v where v: "t = tr s @ EngineCall ProcessResponseBody # v"
    using prefix_order.trans [OF f t(1)] by (auto simp: prefix_def)
  have "tr (runLoggingPhaseIfNeeded env s1) =
      tr s @ EngineCall ProcessResponseBody # (v @ EngineCall Intervention # w)"
    by (simp add: w v)
  then show ?thesis unfolding e inspected_in_def using s(3)
    by (intro exI [of _ "tr s"] exI [of _ "v @ EngineCall Intervention # w"]) simp
qed

text \<open>The three outcomes of a callback.\<close>

definition one_of_three :: "bool \<Rightarrow> string \<Rightarrow> filter_status \<times> 'e stream \<Rightarrow> bool" where
  "one_of_three eos b r \<longleftrightarrow> (case r of (st, s') \<Rightarrow>
      (\<not> eos \<and> st = StopIterationAndBuffer \<and> \<not> response_body_interrupted s') \<or>
      (st = Continue \<and> response_body_interrupted s' \<and> suffix (overwrites (length b)) (tr s')) \<or>
      (eos \<and> st = Continue \<and> inspected_in (tr s') b))"

lemma inspected_release:
  assumes "inspected b s" "prefix b b'"
  shows "one_of_three eos b' (onResponseBody env (buffer b') (length b') eos s)"
proof -
  let ?r = "onResponseBody env (buffer b') (length b') eos s"
  have "transaction s \<noteq> None" using assms(1) by (simp add: inspected_def)
  from body_step_callback [OF this, of "length b'" eos env "buffer b'"]
  have st: "body_step (length b') eos ?r" .
  show ?thesis
  proof (cases "response_body_interrupted (snd ?r)")
    case True
    with st show ?thesis unfolding body_step_def one_of_three_def let_go_def prod.case_eq_if by (metis (full_types))
  next
    case False
    with inspected_body [OF assms, of env eos] obtain t where t: "inspected b' t"
      "?r = (if \<not> eos then (StopIterationAndBuffer, t) else end_response_body env (length b') t)" by blast
    show ?thesis
    proof (cases eos)
      case True
      with t(2) have r: "?r = end_response_body env (length b') t" by simp
      then show ?thesis using True inspected_end [OF t(1), of env "length b'"] False
        by (simp add: one_of_three_def prod.case_eq_if end_response_decides)
    next
      case False': False
      then show ?thesis using t False by (simp add: one_of_three_def)
    qed
  qed
qed

section \<open>Properties\<close>

text \<open>
  C27: when the buffers of the response callbacks grow up to the whole
  body, either the engine is given the body once, in order and completely, or it has intervened,
  and then the body was cut off from the client.
\<close>

theorem response_body_complete:
  assumes "transaction s \<noteq> None" "\<not> response_body_processed s" "\<not> response_body_interrupted s"
    and "response_body_received s = 0" "response_of (tr s) = []" "sorted_wrt prefix (bs @ [b])"
  shows "response_body_interrupted (snd (onResponseBody env (buffer b) (length b) True (feed_response env bs s))) \<or>
    response_of (tr (snd (onResponseBody env (buffer b) (length b) True (feed_response env bs s)))) = b"
proof -
  have "inspected [] s" using assms by (simp add: inspected_def)
  then have fed: "response_body_interrupted (feed_response env bs s) \<or>
      inspected (last ([] # bs)) (feed_response env bs s)"
    using assms(6) by (intro inspected_feed) (simp_all add: sorted_wrt_append)
  have p: "prefix (last ([] # bs)) b"
    using assms(6) by (cases bs rule: rev_cases) (simp_all add: sorted_wrt_append)
  show ?thesis using fed
  proof
    assume "inspected (last ([] # bs)) (feed_response env bs s)"
    from inspected_body [OF this p, of env True] show ?thesis by (auto simp: inspected_def)
  qed (simp add: interrupted_stays)
qed

lemma response_body_complete_witness:
  "response_body_interrupted (snd (onResponseBody calm_env (buffer ''abc'') (length ''abc'') True
      (feed_response calm_env [''a'', ''ab''] ((new_stream new_metrics [])\<lparr>transaction := Some 0\<rparr>)))) \<or>
    response_of (tr (snd (onResponseBody calm_env (buffer ''abc'') (length ''abc'') True
      (feed_response calm_env [''a'', ''ab''] ((new_stream new_metrics [])\<lparr>transaction := Some 0\<rparr>))))) = ''abc''"
proof -
  have "sorted_wrt prefix ([''a'', ''ab''] @ [''abc''])" by simp
  from response_body_complete [OF _ _ _ _ _ this, of "(new_stream new_metrics [])\<lparr>transaction := Some 0\<rparr>" calm_env]
  show ?thesis by (simp add: new_stream_def)
qed

text \<open>
  C7: no part of a response body that the host hands out to the filter
  reaches the client uninspected. When the buffers of the callbacks grow up to \<open>b\<close>, the callback on \<open>b\<close> either holds the buffer back, with more to
  come; or lets it go overwritten as a whole, with the content length to match; or lets it go at
  the end of the body, and then the engine was given exactly \<open>b\<close> before its response-body
  phase and was asked for an intervention after it. Once a body was interrupted, every later
  buffer is overwritten as a whole, whatever the host hands out. (A buffer that the host announces
  and does not hand out is not inspected, \<open>unread_body_passes\<close>.)
\<close>

theorem response_withheld:
  assumes "transaction s \<noteq> None" "\<not> response_body_processed s" "\<not> response_body_interrupted s"
    and "response_body_received s = 0" "response_of (tr s) = []" "sorted_wrt prefix (bs @ [b])"
  shows "(case onResponseBody env (buffer b) (length b) eos (feed_response env bs s) of (st, s') \<Rightarrow>
      (\<not> eos \<and> st = StopIterationAndBuffer \<and> \<not> response_body_interrupted s') \<or>
      (st = Continue \<and> response_body_interrupted s' \<and> suffix (overwrites (length b)) (tr s')) \<or>
      (eos \<and> st = Continue \<and> inspected_in (tr s') b)) \<and>
    (\<forall>get n. response_body_interrupted (feed_response env bs s) \<longrightarrow>
      fst (onResponseBody env get n eos (feed_response env bs s)) = Continue \<and>
      suffix (overwrites n) (tr (snd (onResponseBody env get n eos (feed_response env bs s)))))"
proof -
  let ?f = "feed_response env bs s"
  have t: "transaction ?f \<noteq> None" by (rule feed_transaction [OF assms(1)])
  have i: "fst (onResponseBody env get n eos ?f) = Continue \<and>
      suffix (overwrites n) (tr (snd (onResponseBody env get n eos ?f))) \<and>
      response_body_interrupted (snd (onResponseBody env get n eos ?f))"
    if "response_body_interrupted ?f" for get n
    using t that by (rule interrupted_overwrites)
  have n: "inspected [] s" using assms by (simp add: inspected_def)
  then have fed: "response_body_interrupted ?f \<or> inspected (last ([] # bs)) ?f"
    using assms(6) by (intro inspected_feed) (simp_all add: sorted_wrt_append)
  have p: "prefix (last ([] # bs)) b"
    using assms(6) by (cases bs rule: rev_cases) (simp_all add: sorted_wrt_append)
  have "inspected (last ([] # bs)) ?f \<Longrightarrow> one_of_three eos b (onResponseBody env (buffer b) (length b) eos ?f)"
    by (rule inspected_release [OF _ p])
  moreover have "response_body_interrupted ?f \<Longrightarrow> one_of_three eos b (onResponseBody env (buffer b) (length b) eos ?f)"
    using i by (simp add: one_of_three_def prod.case_eq_if)
  ultimately have r: "one_of_three eos b (onResponseBody env (buffer b) (length b) eos ?f)" using fed by blast
  show ?thesis
  proof (intro conjI allI impI)
    show "case onResponseBody env (buffer b) (length b) eos ?f of (st, s') \<Rightarrow>
      (\<not> eos \<and> st = StopIterationAndBuffer \<and> \<not> response_body_interrupted s') \<or>
      (st = Continue \<and> response_body_interrupted s' \<and> suffix (overwrites (length b)) (tr s')) \<or>
      (eos \<and> st = Continue \<and> inspected_in (tr s') b)"
      using r by (simp only: one_of_three_def)
  qed (simp_all only: i)
qed

lemma response_withheld_witness:
  "case onResponseBody calm_env (buffer ''abc'') (length ''abc'') True
      (feed_response calm_env [''a'', ''ab''] ((new_stream new_metrics [])\<lparr>transaction := Some 0\<rparr>)) of (st, s') \<Rightarrow>
      (st = Continue \<and> response_body_interrupted s' \<and> suffix (overwrites (length ''abc'')) (tr s')) \<or>
      (st = Continue \<and> inspected_in (tr s') ''abc'')"
proof -
  have "sorted_wrt prefix ([''a'', ''ab''] @ [''abc''])" by simp
  from response_withheld [OF _ _ _ _ _ this, where s = "(new_stream new_metrics [])\<lparr>transaction := Some 0\<rparr>" and env = calm_env and eos = True]
  show ?thesis by (simp add: new_stream_def)
qed

end
