(* ===== verification/Entropy.thy ===== *)
theory Entropy
  imports Main "HOL-Library.Word"
begin

text \<open>
  The random bytes of the module (\<^verbatim>\<open>src/src/wasm_getentropy.c\<close>): a 64-bit linear
  congruential generator seeded with the two clocks of WASI, the address and the length of the
  buffer. The clocks are parameters, \<open>None\<close> where reading one fails.
\<close>

unbundle bit_operations_syntax

definition stir :: "64 word \<Rightarrow> 64 word" where
  "stir state = state * 6364136223846793005 + 1"

definition entropy_seed :: "64 word \<Rightarrow> 64 word \<Rightarrow> 32 word \<Rightarrow> nat \<Rightarrow> 64 word" where
  "entropy_seed realtime monotonic buffer len =
     ((realtime XOR push_bit 1 monotonic) XOR ucast buffer) XOR word_of_nat len"

definition entropy_byte :: "64 word \<Rightarrow> 64 word \<Rightarrow> 64 word \<Rightarrow> nat \<Rightarrow> 8 word" where
  "entropy_byte state realtime monotonic i =
     ucast ((((state XOR drop_bit 33 state) XOR realtime) XOR monotonic) XOR word_of_nat i)"

text \<open>The loop with \<open>n\<close> bytes left, the next one at index \<open>i\<close>.\<close>

fun entropy_loop :: "64 word \<Rightarrow> 64 word \<Rightarrow> nat \<Rightarrow> nat \<Rightarrow> 64 word \<Rightarrow> 8 word list" where
  "entropy_loop realtime monotonic i 0 state = []"
| "entropy_loop realtime monotonic i (Suc n) state =
     (let state' = stir state in
      entropy_byte state' realtime monotonic i # entropy_loop realtime monotonic (Suc i) n state')"

text \<open>The return code and the bytes written; the address 0 is the null pointer.\<close>

definition getentropy :: "64 word option \<Rightarrow> 64 word option \<Rightarrow> 32 word \<Rightarrow> nat \<Rightarrow> int \<times> 8 word list" where
  "getentropy realtime_clock monotonic_clock buffer len =
     (if buffer = 0 \<or> len = 0 \<or> 256 < len then (- 1, [])
      else (case realtime_clock of None \<Rightarrow> (- 1, [])
        | Some realtime \<Rightarrow>
          (case monotonic_clock of None \<Rightarrow> (- 1, [])
           | Some monotonic \<Rightarrow>
               (0, entropy_loop realtime monotonic 0 len (entropy_seed realtime monotonic buffer len)))))"

lemma length_entropy_loop [simp]: "length (entropy_loop r m i n s) = n"
  by (induction r m i n s rule: entropy_loop.induct) (simp_all add: Let_def)

text \<open>
  The buffer is filled completely or not at all, and it is filled exactly for the lengths POSIX
  allows, when both clocks can be read.
\<close>

lemma getentropy_fills:
  "fst (getentropy rc mc b len) = 0 \<longleftrightarrow> b \<noteq> 0 \<and> 1 \<le> len \<and> len \<le> 256 \<and> rc \<noteq> None \<and> mc \<noteq> None"
  "length (snd (getentropy rc mc b len)) = (if fst (getentropy rc mc b len) = 0 then len else 0)"
  by (auto simp: getentropy_def split: option.split)

text \<open>The lowest bit of the state alternates: the period of the lowest bit is two.\<close>

lemma stir_parity: "odd (stir s) \<longleftrightarrow> even s"
  by (simp add: stir_def)

end
