(* ===== verification/Spec2Isabelle.thy ===== *)
theory Spec2Isabelle
  imports Root_Policies Metric_Budget Filter_Order Filter_Isolation Filter_Responses Entropy
begin

text \<open>
  Verification of the ModSecurity proxy-wasm filter (\<^verbatim>\<open>src/src\<close>): a WebAssembly module for
  Envoy that feeds HTTP streams to libModSecurity and enforces what it decides.

  \<^bold>\<open>The program.\<close> A root context reads the plugin configuration: options, metric labels, data
  files, and a list of directives with virtual includes; it loads the rules into a rules set of
  the engine. Every HTTP stream has a context with one transaction of the engine. Its callbacks
  hand over the request and the response piece by piece, ask for an intervention after every
  step, and answer, replace or pass on. Both write JSON log lines and metrics.

  \<^bold>\<open>Theories.\<close> Strings are lists of 8-bit characters throughout; \<^verbatim>\<open>size_t\<close> is 32 bits wide where
  a conversion can cut a value.

  \<^item> \<open>Prelude\<close>: searches of \<^verbatim>\<open>std::string\<close>, trimming, decimal printing, C strings, sequencing.
  \<^item> \<open>Json_Escape\<close>, \<open>Cxx_Num\<close>, \<open>Json_Scan\<close>: escaping and its inverse, the numeric conversions of
    the C++ library with their widths, and the JSON extractors of \<^verbatim>\<open>waf_config.cc\<close>. The matcher of
    braces is proved against the texts of well-formed documents, with the white space and the
    escapes a writer may choose (\<open>doc\<close>); the directive list, the labels and the string values
    against a writer of them.
  \<^item> \<open>Directives\<close>: base64, the bounded gunzip loop, \<^verbatim>\<open>loadDirectiveList\<close>.
  \<^item> \<open>Rule_Load\<close>: catalog, virtual includes, batching (\<^verbatim>\<open>applyJsonConfig\<close>) and expansion
    (\<^verbatim>\<open>expandJsonConfig\<close>). \<open>Rule_Batches\<close>, \<open>Rule_Includes\<close>: what batches and includes look like.
    \<open>Rule_Contracts\<close>: the locales \<open>chunk_loader\<close> and \<open>include_resolver\<close>. \<open>Rule_Plan\<close>: the abstract
    specification, a plan of items, and the refinement of it by both the load and the expansion;
    what a chunk is (\<open>chunks_spec\<close>), what an include can name (\<open>resolvable\<close>).
  \<^item> \<open>Plugin_Options\<close>: the option records of \<^verbatim>\<open>waf_config.h\<close> and \<^verbatim>\<open>metrics.h\<close> and the functions
    that fill them; who may fall back. The operator's marks (\<open>marks_operator\<close>) are described by
    the text, not by the code's search for them.
  \<^item> \<open>Data_Files\<close>, \<open>Vfs\<close>: \<^verbatim>\<open>parseDataFiles\<close> under its budget, and \<^verbatim>\<open>wasm_vfs.cc\<close>.
  \<^item> \<open>Host\<close>, \<open>Log_Lines\<close>: the effects on the outside as a trace, and the log lines.
  \<^item> \<open>Rules_Engine\<close>: \<^verbatim>\<open>loadRuleChunk\<close>, an interpretation of \<open>chunk_loader\<close>; what the engine gets and
    when a load fails.
  \<^item> \<open>Metrics\<close> (\<^verbatim>\<open>metrics.cc\<close>), \<open>Metric_Budget\<close> (the locale \<open>series_budget\<close> for the two limits on
    distinct series), \<open>Metric_Effects\<close>.
  \<^item> \<open>Telemetry\<close>, \<open>Http_Text\<close>, \<open>Fullwidth\<close>: sampling, HTTP text, folding of fullwidth characters.
  \<^item> \<open>Filter_State\<close>, \<open>Filter_Stream\<close>: the members of \<^verbatim>\<open>ModSecContext\<close>, its private operations and
    its callbacks. \<open>Filter_Contracts\<close>: runs of a stream and the layered locales from
    \<open>stream_log\<close> to \<open>stream_contract\<close> for its invariants. \<open>Filter_Policies\<close>, \<open>Filter_Phases\<close>,
    \<open>Filter_Order\<close>, \<open>Filter_Blocking\<close>, \<open>Filter_Isolation\<close>, \<open>Filter_Bodies\<close>, \<open>Filter_Responses\<close>:
    effects and export, the phases and their order, replies and waiting, which stream a match is
    recorded for, the request body, and what of the response body may reach the client.
  \<^item> \<open>Root_Context\<close>, \<open>Root_Policies\<close>: \<^verbatim>\<open>ModSecRootContext\<close>, the built-in configurations and the
    identity of the build (\<^verbatim>\<open>version.h\<close>, \<^verbatim>\<open>version.cc\<close>); what the configure step guarantees.
  \<^item> \<open>Entropy\<close>: \<^verbatim>\<open>wasm_getentropy.c\<close>.
  \<^item> This theory: streams of a configured root context, and the properties of the whole.

  \<^bold>\<open>State.\<close> A C++ object is a record with its members; a member function takes the record and
  returns it changed. Calls to the outside (log, metrics, replies, buffers, the engine) are
  appended to a list of effects, the trace, in program order. What the outside answers is a
  parameter: the host's answers depend on the trace; \<^verbatim>\<open>getValue\<close>, headers and buffers are
  arguments of the callbacks. A run of a stream (\<open>reachable\<close>) is any sequence of callbacks;
  between two of them other streams may change the shared metrics and become the active stream,
  and the host may change its answers. The pointer to the active stream
  (\<^verbatim>\<open>g_active_modsec_context\<close>) names this stream, another one or none; a match that the log
  callback would write into another stream is the effect \<open>ForeignMatch\<close>.

  \<^bold>\<open>Parameters.\<close> libModSecurity (\<open>rules_set\<close>, \<open>engine\<close>: a state of any type with the calls the
  filter makes), zlib (\<open>zlib\<close>; \<open>zlib_progress\<close> is its documented behaviour that a call makes
  progress or reports an error, and is assumed for termination only), the generated rules
  catalog (\<open>catalog\<close>), the macros of the build (\<open>build_info\<close>), the order of a hash map, the
  clocks of WASI. The engine calls the log callback during a call; the messages are recorded
  after the call returns, which the callback cannot tell apart, as it does not touch the
  transaction.

  \<^bold>\<open>Loops.\<close> All loops are structural or have a measure, except the gunzip loop, whose result is
  an option: \<open>None\<close> stands for a loop that does not end. It ends for a decompressor with
  \<open>zlib_progress\<close>, and so does everything above it.

  \<^bold>\<open>Not modelled.\<close> Memory management (the old rules set is leaked on reconfiguration, exceptions
  of \<^verbatim>\<open>std::bad_alloc\<close>), the \<^verbatim>\<open>libc\<close> stubs of \<^verbatim>\<open>wasm_stubs.c\<close> (constants), the registration of the
  context factory, the build scripts and the tests.
\<close>

section \<open>Streams of a configured root context\<close>

text \<open>The root context as a stream sees it (\<^verbatim>\<open>rootContext()\<close>).\<close>

definition stream_env :: "('z, 'r) surroundings \<Rightarrow> 'e engine \<Rightarrow> nat \<Rightarrow> 'r root \<Rightarrow> 'e env" where
  "stream_env su eng context_id r =
     \<lparr>e_host = su_host su, e_engine = eng, e_options = plugin_options r, e_id = context_id,
      e_ready = (modsec r \<noteq> None \<and> rules r \<noteq> None)\<rparr>"

text \<open>A stream the host has just created, and whatever the pointer to the active stream names then.\<close>

definition new_stream_of :: "active_context \<Rightarrow> 'r root \<Rightarrow> 'e stream" where
  "new_stream_of a r = (onCreate (new_stream (r_metrics r) []))\<lparr>active := a\<rparr>"

section \<open>Operator configurations\<close>

lemma operator_no_fallback: "operator_driven config \<Longrightarrow> \<not> wafConfigAllowsFallback config"
  by (simp add: wafConfigAllowsFallback_def hasKubeWafIdentity_text)

lemma operator_applied:
  assumes "onConfigure su n buf s = Some (True, s')" "readPluginConfig n buf = Some config" "operator_driven config"
  shows "\<exists>t0 r t1 err. applyJsonConfig (su_zlib su) (su_catalog su)
      (Some (loadRuleChunk (su_host su) (su_rules su))) (trim config) (rs_new (su_rules su), t0) [] = Some (True, (r, t1), err) \<and>
    rules s' = Some r \<and> rules_text (r_tr s') = rules_text t1 \<and> rules_text t0 = rules_text (r_tr s)"
proof -
  obtain t0 r t1 where a: "applies su config t0 True r t1" "rules s' = Some r"
    "rules_text (r_tr s') = rules_text t1" "rules_text t0 = rules_text (r_tr s)"
    using configure_accepted [OF assms(1)] assms(2) operator_no_fallback [OF assms(3)] by auto
  have j: "looksLikeJson config" using assms(3) by (simp add: operator_driven_def)
  then have "trim config \<noteq> []" by (auto simp: looksLikeJson_def Let_def)
  with a(1) j show ?thesis
    using a(2-4) by (auto simp: applies_def applyWafConfiguration_def Let_def)
qed

lemma demo_apply:
  "\<exists>r t err. applyWafConfiguration stored_zlib demo_catalog (Some (loadRuleChunk demo_host demo_rules)) demo_json ([], t0) =
     Some (True, (r, t), err)"
proof -
  have "trim demo_json = demo_json" "demo_json \<noteq> []" "looksLikeJson demo_json" by code_simp+
  then show ?thesis using demo_load [of t0] by (auto simp: applyWafConfiguration_def Let_def)
qed

lemma demo_plain_names: "list_all (\<lambda>f. list_all plain_char (fst f)) demo_files" "distinct (map fst demo_files)"
  "\<not> contains demo_json (quoted ''data_files_encoding'')" "total_size demo_files \<le> 2 * 1024 * 1024"
proof -
  show "list_all (\<lambda>f. list_all plain_char (fst f)) demo_files" by code_simp
  show "\<not> contains demo_json (quoted ''data_files_encoding'')" by code_simp
qed (simp_all add: demo_files_def)

lemma demo_operator: "operator_driven demo_json"
proof -
  have "looksLikeJson demo_json" "extractJsonStringValue demo_json ''mode'' = ''kubewaf''" by code_simp+
  then show ?thesis by (simp add: operator_driven_def)
qed

lemma demo_configured:
  "\<exists>s'. onConfigure demo_surroundings 1 (Some demo_json) new_root = Some (True, s')"
proof -
  obtain files where f: "parseDataFiles stored_zlib rev demo_json = Some (True, files, [])"
    using data_files_read_any [OF _ demo_json_def demo_plain_names, of rev stored_zlib] by auto
  have "\<exists>s'. install_rules demo_surroundings demo_json t = Some (True, s')" if r: "rules t = Some []" for t
  proof -
    obtain r t1 err where "applyWafConfiguration stored_zlib demo_catalog (Some (loadRuleChunk demo_host demo_rules))
        demo_json ([], r_tr t) = Some (True, (r, t1), err)"
      using demo_apply by blast
    then show ?thesis by (simp add: install_rules_def r demo_surroundings_def Let_def)
  qed
  then show ?thesis
    using f by (simp add: onConfigure_def readPluginConfig_def demo_surroundings_def demo_rules_def Let_def)
qed

section \<open>Properties of the whole\<close>

text \<open>
  C1: a configuration of the operator takes effect as a whole or not
  at all. When the configure step accepts it, every include and every directive of the profile
  has been given to the engine, in order and with nothing else: no rule of the built-in fallback
  stands in for the operator's rules (as far as the text holds no NUL byte, where a C string
  ends).
\<close>

theorem operator_rules_in_force:
  assumes "onConfigure su n buf s = Some (True, s')" "readPluginConfig n buf = Some config" "operator_driven config"
  shows "\<exists>ds items. loadDirectiveList (su_zlib su) (trim config) (default_profile (trim config)) = Some (Inr ds) \<and>
    plan (su_catalog su) {} (concat (map splitDirectiveLines ds)) = (items, None) \<and>
    (NUL \<notin> set (concat (map item_loaded items)) \<longrightarrow>
      rules_text (r_tr s') = rules_text (r_tr s) @ concat (map item_loaded items))"
proof -
  obtain t0 r t1 err where a: "applyJsonConfig (su_zlib su) (su_catalog su)
      (Some (loadRuleChunk (su_host su) (su_rules su))) (trim config) (rs_new (su_rules su), t0) [] = Some (True, (r, t1), err)"
    "rules_text (r_tr s') = rules_text t1" "rules_text t0 = rules_text (r_tr s)"
    using operator_applied [OF assms] by blast
  from engine_plan [OF a(1)] a(2,3) show ?thesis by metis
qed

lemma operator_rules_in_force_witness:
  "\<exists>s' ds items. onConfigure demo_surroundings 1 (Some demo_json) new_root = Some (True, s') \<and>
     loadDirectiveList stored_zlib (trim demo_json) (default_profile (trim demo_json)) = Some (Inr ds) \<and>
     plan demo_catalog {} (concat (map splitDirectiveLines ds)) = (items, None)"
proof -
  obtain s' where s': "onConfigure demo_surroundings 1 (Some demo_json) new_root = Some (True, s')"
    using demo_configured by blast
  from operator_rules_in_force [OF s' _ demo_operator]
  have "\<exists>ds items. loadDirectiveList stored_zlib (trim demo_json) (default_profile (trim demo_json)) = Some (Inr ds) \<and>
     plan demo_catalog {} (concat (map splitDirectiveLines ds)) = (items, None)"
    by (auto simp: readPluginConfig_def demo_surroundings_def)
  with s' show ?thesis by blast
qed

text \<open>
  C13: the data files an operator writes into the configuration are
  the ones the phrase operators of the rules read after the configure step, byte for byte and
  whatever directory a rule names; the catalog cannot shadow them.
\<close>

theorem data_files_reach_rules:
  assumes "onConfigure su n buf s = Some (True, s')" "readPluginConfig n buf = Some config"
    and "\<And>m. mset (su_order su m) = mset m"
    and "config = ''{'' @ quoted ''data_files'' @ '':{'' @ file_members files @ CHR ''}'' # rest"
    and "list_all (\<lambda>f. list_all plain_char (fst f)) files" "distinct (map fst files)"
    and "\<not> contains config (quoted ''data_files_encoding'')" "total_size files \<le> 2 * 1024 * 1024"
    and "(b, content) \<in> set files" "b \<noteq> []" "CHR ''/'' \<notin> set b"
  shows "resolve_data_file (su_catalog su) (runtime_data s') (Some (dir @ CHR ''/'' # b)) = Some content"
proof -
  obtain files' where p: "parseDataFiles (su_zlib su) (su_order su) config = Some (True, files', [])"
    "map_of files' = map_of files"
    using data_files_read_any [OF assms(3-8)] by blast
  have "install_rules su config (install_data_files su files' (install_options su config
      (on_trace (configure_start su n) s))) = Some (True, s')"
    using onConfigure_success [OF assms(1)] assms(2) p(1) by auto
  from install_rules_success [OF _ this] have files': "runtime_data s' = files'" by simp
  have "map_of files' b = Some content" using p(2) assms(6,9) by simp
  then have m: "files' \<noteq> []" "map_of files' b = Some content" by auto
  have "list_all plain_char b"
    using bspec [OF assms(5) [unfolded list_all_iff [of _ files]] assms(9)] by simp
  then have "BSLASH \<notin> set b"
    unfolding list_all_iff plain_char_def by blast
  then have base: "base_name (dir @ CHR ''/'' # b) = b" using assms(11) by (intro base_name_path(1))
  show ?thesis
    unfolding resolve_data_file_def files' option.case base Let_def using m assms(10) by simp
qed

lemma data_files_reach_rules_witness:
  "\<exists>s'. onConfigure demo_surroundings 1 (Some demo_json) new_root = Some (True, s') \<and>
     resolve_data_file demo_catalog (runtime_data s') (Some (''rules'' @ CHR ''/'' # ''ip.data'')) = Some ''10.0.0.1''"
proof -
  obtain s' where s': "onConfigure demo_surroundings 1 (Some demo_json) new_root = Some (True, s')"
    using demo_configured by blast
  have "resolve_data_file (su_catalog demo_surroundings) (runtime_data s')
      (Some (''rules'' @ CHR ''/'' # ''ip.data'')) = Some ''10.0.0.1''"
    by (rule data_files_reach_rules [OF s' _ _ demo_json_def demo_plain_names])
      (simp_all add: readPluginConfig_def demo_surroundings_def demo_files_def)
  with s' show ?thesis by (auto simp: demo_surroundings_def)
qed

text \<open>
  C9: once a configure step has succeeded, no request bypasses
  the filter: each one starts a transaction of the engine, whichever stream was active before.
  Before any configuration a request
  passes without an effect.
\<close>

theorem configured_streams_inspected:
  assumes "onConfigure su n buf s = Some (True, s')"
  shows "transaction (snd (onRequestHeaders (stream_env su eng k s') i eos (new_stream_of a s'))) \<noteq> None \<and>
    onRequestHeaders (stream_env su eng k new_root) i eos (new_stream_of a s') = (Continue, new_stream_of a s')"
proof -
  have "e_ready (stream_env su eng k s')"
    using configure_accepted [OF assms] by (auto simp: stream_env_def)
  from started_headers [OF this] have "transaction (snd (onRequestHeaders (stream_env su eng k s') i eos (new_stream_of a s'))) \<noteq> None"
    unfolding new_stream_of_def started_def by blast
  moreover have "\<not> e_ready (stream_env su eng k new_root)" by (simp add: stream_env_def new_root_def)
  ultimately show ?thesis by (simp add: onRequestHeaders_def)
qed

lemma configured_streams_inspected_witness:
  "\<exists>s'. onConfigure demo_surroundings 1 (Some demo_json) new_root = Some (True, s') \<and>
     transaction (snd (onRequestHeaders (stream_env demo_surroundings demo_engine 7 s') demo_input True
       (new_stream_of Other s'))) \<noteq> None"
proof -
  obtain s' where s': "onConfigure demo_surroundings 1 (Some demo_json) new_root = Some (True, s')"
    using demo_configured by blast
  from configured_streams_inspected [OF s', of demo_engine 7 demo_input True Other] s' show ?thesis by blast
qed

end
